theory Spec2Isabelle
  imports Complex_Main "HOL-Library.Sublist"
begin

section \<open>The job registry of youtube\_webapp.py\<close>

text \<open>
  The module keeps one global dictionary \<^verbatim>\<open>downloads\<close>, keyed by the download
  identifier, whose values are dictionaries with the keys \<^verbatim>\<open>status\<close>,
  \<^verbatim>\<open>progress\<close>, \<^verbatim>\<open>current\<close>, \<^verbatim>\<open>errors\<close>, \<^verbatim>\<open>timestamp\<close> and, once the
  archive has been written, \<^verbatim>\<open>zip_path\<close>. A key that is absent from the Python
  dictionary is \<open>None\<close> here. Every block \<^verbatim>\<open>with downloads_lock:\<close> is one atomic
  update of the registry.
\<close>

record job =
  status :: string
  progress :: int
  current :: string
  errors :: "string list"
  timestamp :: rat
  zip_path :: "string option"

type_synonym registry = "string \<rightharpoonup> job"

subsection \<open>Double-precision arithmetic of the progress formula\<close>

text \<open>
  The hook computes \<^verbatim>\<open>int((completed / total) * 90)\<close>. In Python \<^verbatim>\<open>/\<close> on two
  integers is the correctly rounded double nearest to the quotient, \<^verbatim>\<open>* 90\<close> is the
  correctly rounded product with the double 90.0, and \<^verbatim>\<open>int\<close> truncates. A finite
  non-negative double is modelled exactly, as a pair \<open>(m, e)\<close> of a mantissa and an
  exponent standing for \<open>m * 2 ^ e\<close>; a normal double has \<open>2 ^ 52 \<le> m < 2 ^ 53\<close>.
  Rounding is to nearest, ties to even. Overflow and subnormal numbers are left out: they
  need a quotient above \<open>2 ^ 1023\<close> or below \<open>2 ^ - 1022\<close>, which the length of a list and
  a counter of events do not reach.
\<close>

type_synonym double = "int \<times> int"

text \<open>The integer nearest to \<open>p / q\<close> for \<open>0 \<le> p\<close> and \<open>0 < q\<close>, ties to the even one.\<close>

definition round_half_even :: "int \<Rightarrow> int \<Rightarrow> int" where
  "round_half_even p q =
    (let f = p div q; r = p mod q
     in if 2 * r < q then f else if q < 2 * r then f + 1 else if even f then f else f + 1)"

text \<open>The binary exponent of \<open>p / q\<close>: the \<open>k\<close> with \<open>2 ^ k \<le> p / q < 2 ^ (k + 1)\<close>.\<close>

function ilog2 :: "int \<Rightarrow> int \<Rightarrow> int" where
  "ilog2 p q =
    (if p \<le> 0 \<or> q \<le> 0 then 0
     else if p < q then ilog2 (2 * p) q - 1
     else if 2 * q \<le> p then ilog2 p (2 * q) + 1
     else 0)"
  by pat_completeness auto
termination
  by (relation "measure (\<lambda>(p, q). nat (if p < q then 2 * q - p else if 2 * q \<le> p then p - q else 0))")
     auto

declare ilog2.simps [simp del]

text \<open>The double nearest to the fraction \<open>p / q\<close>, for \<open>0 \<le> p\<close> and \<open>0 < q\<close>.\<close>

definition nearest_double :: "int \<Rightarrow> int \<Rightarrow> double" where
  "nearest_double p q =
    (if p = 0 then (0, 0)
     else let e = ilog2 p q - 52
          in (if e < 0 then round_half_even (p * 2 ^ nat (- e)) q
              else round_half_even p (q * 2 ^ nat e), e))"

text \<open>\<^verbatim>\<open>a / b\<close> on integers (the caller has excluded \<^verbatim>\<open>b == 0\<close>).\<close>

definition py_truediv :: "int \<Rightarrow> int \<Rightarrow> double" where
  "py_truediv a b = nearest_double a b"

text \<open>\<^verbatim>\<open>x * k\<close> for a double \<open>x\<close> and a small integer constant \<open>k\<close>, which is exact as a double.\<close>

definition float_mul_int :: "double \<Rightarrow> int \<Rightarrow> double" where
  "float_mul_int x k =
    (case x of (m, e) \<Rightarrow>
       if e < 0 then nearest_double (m * k) (2 ^ nat (- e))
       else nearest_double (m * k * 2 ^ nat e) 1)"

text \<open>\<^verbatim>\<open>int(x)\<close> on a non-negative double.\<close>

definition py_int :: "double \<Rightarrow> int" where
  "py_int x = (case x of (m, e) \<Rightarrow>
     if e < 0 then m div 2 ^ nat (- e) else m * 2 ^ nat e)"

text \<open>\<^verbatim>\<open>int((completed / total) * 90)\<close>, for \<^verbatim>\<open>total != 0\<close>.\<close>

definition overall_progress :: "int \<Rightarrow> int \<Rightarrow> int" where
  "overall_progress completed_count total_count =
     py_int (float_mul_int (py_truediv completed_count total_count) 90)"

subsection \<open>Formatting an integer\<close>

text \<open>\<^verbatim>\<open>f"{n}"\<close> for an integer: its decimal digits, with a minus sign when negative.\<close>

definition digit :: "int \<Rightarrow> char" where
  "digit d = ''0123456789'' ! nat d"

function decimal :: "int \<Rightarrow> string" where
  "decimal n = (if n < 10 then [digit n] else decimal (n div 10) @ [digit (n mod 10)])"
  by pat_completeness auto
termination
  by (relation "measure nat") auto

declare decimal.simps [simp del]

definition str_int :: "int \<Rightarrow> string" where
  "str_int n = (if n < 0 then ''-'' @ decimal (- n) else decimal n)"

subsection \<open>What the runner takes from outside\<close>

text \<open>
  A progress event is the dictionary \<^verbatim>\<open>d\<close> that the fetch library passes to the
  hook: \<^verbatim>\<open>d['status']\<close> and the optional key \<^verbatim>\<open>filename\<close>.
\<close>

record event =
  ev_status :: string
  ev_filename :: "string option"

text \<open>
  One call \<^verbatim>\<open>ydl.download([url])\<close>: the events it delivers to the hook, in order,
  and \<^verbatim>\<open>str(e)\<close> of the exception that it raises at the end, if it raises one.
\<close>

record fetch_run =
  events :: "event list"
  failure :: "string option"

text \<open>An entry of a directory: a regular file with its bytes, a directory, or anything else.\<close>

datatype node = Regular_file string | Directory "(string \<times> node) list" | Special

text \<open>
  The environment of one run of \<^verbatim>\<open>download_videos\<close>: \<^verbatim>\<open>Path.home()\<close>; the message of
  the error with which \<^verbatim>\<open>mkdir\<close> fails, if it fails; the behaviour of the fetch
  library at the \<open>i\<close>-th call, on a URL; what \<^verbatim>\<open>os.listdir(download_dir)\<close> returns when
  the archive is built, each name with the node it names; and the message of the error
  with which writing the archive fails, if it fails. The quality selector only reaches the
  fetch library, whose behaviour is arbitrary here.
\<close>

record env =
  home :: string
  mkdir_error :: "string option"
  ydl_download :: "nat \<Rightarrow> string \<Rightarrow> fetch_run"
  listdir :: "(string \<times> node) list"
  zip_error :: "string option"

datatype exn = KeyError string | ZeroDivisionError | OSError string

text \<open>
  \<^verbatim>\<open>str(e)\<close>: for a \<^verbatim>\<open>KeyError\<close> the key between single quotes (the identifier is
  made of hexadecimal digits and dashes), for a division by zero Python's fixed message.
\<close>

definition str_exn :: "exn \<Rightarrow> string" where
  "str_exn e = (case e of
     KeyError k \<Rightarrow> [CHR 0x27] @ k @ [CHR 0x27]
   | ZeroDivisionError \<Rightarrow> ''division by zero''
   | OSError msg \<Rightarrow> msg)"

subsection \<open>The runner\<close>

text \<open>
  The state of one thread running \<^verbatim>\<open>download_videos\<close>: its local variables
  \<^verbatim>\<open>completed\<close> and \<^verbatim>\<open>errors\<close>, the shared registry, the archive file it has
  written (its path and its entries, each a name with the bytes stored under it), and,
  for stating what a poller can see, the registry as it stood when the thread started
  and after each block under the lock, oldest first.
\<close>

record runner =
  completed :: int
  errs :: "string list"
  r_downloads :: registry
  written :: "(string \<times> (string \<times> string) list) option"
  observed :: "registry list"

text \<open>Leaving a block \<^verbatim>\<open>with downloads_lock:\<close> makes the registry visible.\<close>

definition release :: "runner \<Rightarrow> runner" where
  "release r = r\<lparr>observed := observed r @ [r_downloads r]\<rparr>"

text \<open>
  \<^verbatim>\<open>d.get('filename', '')[:50]\<close>. The slice counts the characters of the model's
  strings; no property below depends on where a long name is cut.
\<close>

definition filename50 :: "event \<Rightarrow> string" where
  "filename50 d = take 50 (case ev_filename d of None \<Rightarrow> [] | Some f \<Rightarrow> f)"

text \<open>
  The hook. The right-hand side \<^verbatim>\<open>int((completed / total) * 90)\<close> is evaluated before
  the subscript \<^verbatim>\<open>downloads[download_id]\<close>; either may raise, and then nothing has been
  written to the registry. In the branch for \<^verbatim>\<open>finished\<close> the statement
  \<^verbatim>\<open>completed += 1\<close> comes first, so the counter has grown when the subscript raises.
  An exception leaves the hook with the state in which it was raised.
\<close>

definition progress_hook :: "string \<Rightarrow> int \<Rightarrow> event \<Rightarrow> runner \<Rightarrow> (exn \<times> runner) + runner" where
  "progress_hook download_id total_count d r =
    (if ev_status d = ''downloading'' then
       if total_count = 0 then Inl (ZeroDivisionError, r)
       else (case r_downloads r download_id of
               None \<Rightarrow> Inl (KeyError download_id, r)
             | Some info \<Rightarrow>
                 Inr (release (r\<lparr>r_downloads := (r_downloads r)(download_id \<mapsto>
                   info\<lparr>progress := overall_progress (completed r) total_count,
                        current := ''Downloading: '' @ filename50 d\<rparr>)\<rparr>)))
     else if ev_status d = ''finished'' then
       (case r_downloads r download_id of
          None \<Rightarrow> Inl (KeyError download_id, r\<lparr>completed := completed r + 1\<rparr>)
        | Some info \<Rightarrow>
            Inr (release (r\<lparr>completed := completed r + 1,
              r_downloads := (r_downloads r)(download_id \<mapsto>
                info\<lparr>current := ''Finished: '' @ filename50 d\<rparr>)\<rparr>)))
     else Inr (release r))"

text \<open>
  The events of one fetch, in order. The hook runs inside \<^verbatim>\<open>ydl.download\<close>: an
  exception that it raises ends that call, and the events that would have followed are not
  delivered.
\<close>

fun run_hooks :: "string \<Rightarrow> int \<Rightarrow> event list \<Rightarrow> runner \<Rightarrow> (exn \<times> runner) + runner" where
  "run_hooks download_id total_count [] r = Inr r"
| "run_hooks download_id total_count (d # ds) r =
    (case progress_hook download_id total_count d r of
       Inl x \<Rightarrow> Inl x
     | Inr r' \<Rightarrow> run_hooks download_id total_count ds r')"

text \<open>
  \<^verbatim>\<open>for url in urls: try: ydl.download([url]) except Exception as e: errors.append(str(e))\<close>;
  \<open>i\<close> counts the calls. The \<^verbatim>\<open>except\<close> clause catches what the call raises, be it the
  library's own error or an exception of the hook, records it and goes on to the next URL.
\<close>

fun download_each ::
  "env \<Rightarrow> string \<Rightarrow> int \<Rightarrow> nat \<Rightarrow> string list \<Rightarrow> runner \<Rightarrow> runner" where
  "download_each env download_id total_count i [] r = r"
| "download_each env download_id total_count i (url # urls) r =
    download_each env download_id total_count (Suc i) urls
      (case run_hooks download_id total_count (events (ydl_download env i url)) r of
         Inl (e, r') \<Rightarrow> r'\<lparr>errs := errs r' @ [str_exn e]\<rparr>
       | Inr r' \<Rightarrow>
           (case failure (ydl_download env i url) of
              None \<Rightarrow> r'
            | Some msg \<Rightarrow> r'\<lparr>errs := errs r' @ [msg]\<rparr>))"

text \<open>
  The archive: for each name \<^verbatim>\<open>f\<close> of the listing for which \<^verbatim>\<open>os.path.isfile\<close>
  holds, \<^verbatim>\<open>zipf.write(full, f)\<close> stores the file's bytes under the name \<^verbatim>\<open>f\<close>.
\<close>

fun zip_entries :: "(string \<times> node) list \<Rightarrow> (string \<times> string) list" where
  "zip_entries [] = []"
| "zip_entries ((f, Regular_file bytes) # rest) = (f, bytes) # zip_entries rest"
| "zip_entries ((f, other) # rest) = zip_entries rest"

text \<open>
  \<^verbatim>\<open>a / b\<close> on paths, for a relative \<open>b\<close>. \<^verbatim>\<open>Path.home()\<close> has no trailing
  separator unless it is the root.
\<close>

definition joinpath :: "string \<Rightarrow> string \<Rightarrow> string" where
  "joinpath a b = (if a = ''/'' then a @ b else a @ ''/'' @ b)"

text \<open>
  \<^verbatim>\<open>download_dir\<close>, the directory that is created and later listed, and
  \<^verbatim>\<open>zip_path\<close>. The identifier is a prefix of the text of a UUID and holds no
  separator, so \<^verbatim>\<open>download_dir.parent\<close> is the folder \<^verbatim>\<open>Downloads\<close>.
\<close>

definition download_dir_of :: "string \<Rightarrow> string \<Rightarrow> string" where
  "download_dir_of home_dir download_id =
     joinpath (joinpath home_dir ''Downloads'') (''YouTube_'' @ download_id)"

definition zip_path_of :: "string \<Rightarrow> string \<Rightarrow> string" where
  "zip_path_of home_dir download_id =
     joinpath (joinpath home_dir ''Downloads'') (''youtube_'' @ download_id @ ''.zip'')"

text \<open>The last block under the lock.\<close>

definition finish :: "string \<Rightarrow> int \<Rightarrow> string \<Rightarrow> runner \<Rightarrow> (exn \<times> runner) + runner" where
  "finish download_id total_count zip_file r =
    (case r_downloads r download_id of
       None \<Rightarrow> Inl (KeyError download_id, r)
     | Some info \<Rightarrow>
         Inr (release (r\<lparr>r_downloads := (r_downloads r)(download_id \<mapsto>
           info\<lparr>status := ''completed'', progress := 100, zip_path := Some zip_file,
                current := ''Completed! '' @ str_int (completed r) @ ''/''
                             @ str_int total_count @ '' downloaded'',
                errors := errs r\<rparr>)\<rparr>)))"

text \<open>
  The whole of \<^verbatim>\<open>download_videos\<close>. \<open>Inl (e, r)\<close>: the thread ended with the uncaught
  exception \<open>e\<close> in the state \<open>r\<close>; \<open>Inr r\<close>: it returned in the state \<open>r\<close>. Neither
  \<^verbatim>\<open>mkdir\<close> nor the writing of the archive nor the last block stands in a
  \<^verbatim>\<open>try\<close>. An archive that could not be written completely does not count as written.
\<close>

definition download_videos ::
  "env \<Rightarrow> string list \<Rightarrow> string \<Rightarrow> string \<Rightarrow> registry \<Rightarrow> (exn \<times> runner) + runner" where
  "download_videos env urls download_id quality downloads =
    (let r0 = \<lparr>completed = 0, errs = [], r_downloads = downloads, written = None,
               observed = [downloads]\<rparr>;
         total_count = int (length urls)
     in case mkdir_error env of
          Some msg \<Rightarrow> Inl (OSError msg, r0)
        | None \<Rightarrow>
            (let r1 = download_each env download_id total_count 0 urls r0
             in case zip_error env of
                  Some msg \<Rightarrow> Inl (OSError msg, r1)
                | None \<Rightarrow>
                    finish download_id total_count (zip_path_of (home env) download_id)
                      (r1\<lparr>written := Some (zip_path_of (home env) download_id,
                                            zip_entries (listdir env))\<rparr>)))"

text \<open>The state in which a run ended, either way.\<close>

definition final_state :: "(exn \<times> runner) + runner \<Rightarrow> runner" where
  "final_state res = (case res of Inl (e, r) \<Rightarrow> r | Inr r \<Rightarrow> r)"

subsection \<open>Validation of a URL\<close>

text \<open>
  \<^verbatim>\<open>return "youtube.com" in url or "youtu.be" in url\<close>: Python's \<^verbatim>\<open>in\<close> on two
  strings is the test for a contiguous substring, which is \<^const>\<open>sublist\<close>.
\<close>

definition is_valid_youtube_url :: "string \<Rightarrow> bool" where
  "is_valid_youtube_url url \<longleftrightarrow> sublist ''youtube.com'' url \<or> sublist ''youtu.be'' url"

subsection \<open>The creation endpoint\<close>

text \<open>
  The JSON body of the request: \<^verbatim>\<open>data.get('urls', [])\<close> and
  \<^verbatim>\<open>data.get('quality', '720')\<close> read two optional keys.
\<close>

record request =
  req_urls :: "string list option"
  req_quality :: "string option"

datatype creation = Failure string | Success string

text \<open>The arguments \<^verbatim>\<open>(valid_urls, download_id, None, quality)\<close> of the thread that is started.\<close>

record thread_args =
  t_urls :: "string list"
  t_download_id :: string
  t_quality :: string

text \<open>
  What \<^verbatim>\<open>start_download\<close> takes from outside is explicit: \<open>uuid4\<close> is the string
  \<^verbatim>\<open>str(uuid.uuid4())\<close> and \<open>now\<close> is \<^verbatim>\<open>time.time()\<close>. The result is the JSON
  answer, the registry afterwards, and the thread that was started, if any. The requests
  are the well-typed ones: a JSON object whose \<^verbatim>\<open>urls\<close>, when present, is a list of
  strings.
\<close>

definition start_download ::
  "request \<Rightarrow> string \<Rightarrow> rat \<Rightarrow> registry \<Rightarrow> creation \<times> registry \<times> thread_args option" where
  "start_download data uuid4 now downloads =
    (let urls = (case req_urls data of None \<Rightarrow> [] | Some us \<Rightarrow> us);
         quality = (case req_quality data of None \<Rightarrow> ''720'' | Some q \<Rightarrow> q);
         valid_urls = filter is_valid_youtube_url urls
     in if valid_urls = [] then (Failure ''No valid URLs'', downloads, None)
        else
          let download_id = take 8 uuid4;
              downloads' = downloads(download_id \<mapsto>
                \<lparr>status = ''starting'', progress = 0, current = ''Initializing'',
                 errors = [], timestamp = now, zip_path = None\<rparr>)
          in (Success download_id, downloads',
              Some \<lparr>t_urls = valid_urls, t_download_id = download_id, t_quality = quality\<rparr>))"

subsection \<open>The archive endpoint\<close>



section \<open>Properties of a registry, and example inputs\<close>


text \<open>Every record whose status is not \<^verbatim>\<open>completed\<close> has an empty list of errors.\<close>

definition errors_only_when_completed :: "registry \<Rightarrow> bool" where
  "errors_only_when_completed d \<longleftrightarrow>
     (\<forall>k info. d k = Some info \<longrightarrow> status info \<noteq> ''completed'' \<longrightarrow> errors info = [])"

text \<open>A record as the creation endpoint stores it, a request, and the events of one file.\<close>

definition example_job :: job where
  "example_job = \<lparr>status = ''starting'', progress = 0, current = ''Initializing'',
     errors = [], timestamp = 0, zip_path = None\<rparr>"

definition example_request :: request where
  "example_request = \<lparr>req_urls = Some [''https://youtu.be/a'', ''https://example.com/x'',
     ''https://www.youtube.com/watch?v=b''], req_quality = Some ''720''\<rparr>"

definition example_events :: "string \<Rightarrow> event list" where
  "example_events f = [\<lparr>ev_status = ''downloading'', ev_filename = Some f\<rparr>,
                       \<lparr>ev_status = ''finished'', ev_filename = Some f\<rparr>]"

text \<open>The first fetch raises; the second writes a video and its subtitles.\<close>

definition example_env :: env where
  "example_env = \<lparr>home = ''/home/u'', mkdir_error = None,
     ydl_download = (\<lambda>i url.
        if i = 0 then \<lparr>events = [], failure = Some ''ERROR: Video unavailable''\<rparr>
        else \<lparr>events = example_events ''01 - b.mp4'' @ example_events ''01 - b.en.vtt'',
               failure = None\<rparr>),
     listdir = [(''01 - b.mp4'', Regular_file ''video''), (''01 - b.en.vtt'', Regular_file ''subs''),
                (''tmp'', Directory [(''part'', Regular_file ''x'')])],
     zip_error = None\<rparr>"

text \<open>
  Between two states of the registry: the progress of the job does not decrease, when the
  later state shows a status that is not terminal or when \<open>bounded\<close> holds.
\<close>

definition progress_step :: "string \<Rightarrow> bool \<Rightarrow> registry \<Rightarrow> registry \<Rightarrow> bool" where
  "progress_step download_id bounded d d' \<longleftrightarrow>
     (\<forall>a b. d download_id = Some a \<longrightarrow> d' download_id = Some b \<longrightarrow>
        (status b \<noteq> ''completed'' \<and> status b \<noteq> ''failed'') \<or> bounded \<longrightarrow>
        progress a \<le> progress b)"

text \<open>One URL that is a playlist of three videos, the third still being fetched when the
  library returns.\<close>

definition example_playlist_env :: env where
  "example_playlist_env = \<lparr>home = ''/home/u'', mkdir_error = None,
     ydl_download = (\<lambda>i url.
        \<lparr>events = example_events ''01 - a.mp4'' @ example_events ''02 - b.mp4''
                  @ [\<lparr>ev_status = ''downloading'', ev_filename = Some ''03 - c.mp4''\<rparr>],
         failure = None\<rparr>),
     listdir = [(''01 - a.mp4'', Regular_file ''a''), (''02 - b.mp4'', Regular_file ''b'')],
     zip_error = None\<rparr>"

text \<open>The number of events tagged \<^verbatim>\<open>finished\<close> among the events of a fetch.\<close>

definition finished_count :: "event list \<Rightarrow> int" where
  "finished_count ds = int (length (filter (\<lambda>d. ev_status d = ''finished'') ds))"

text \<open>The calls of the fetch library that the loop over the URLs makes, from call \<open>i\<close> on.\<close>

fun fetch_runs :: "env \<Rightarrow> nat \<Rightarrow> string list \<Rightarrow> fetch_run list" where
  "fetch_runs env i [] = []"
| "fetch_runs env i (url # urls) = ydl_download env i url # fetch_runs env (Suc i) urls"

text \<open>The number of events tagged \<^verbatim>\<open>finished\<close> that all the fetches of a run deliver.\<close>

definition total_finished :: "env \<Rightarrow> string list \<Rightarrow> int" where
  "total_finished env urls =
     sum_list (map (\<lambda>f. finished_count (events f)) (fetch_runs env 0 urls))"

text \<open>Between two states of the registry: the progress of the job does not decrease.\<close>

definition progress_le :: "string \<Rightarrow> registry \<Rightarrow> registry \<Rightarrow> bool" where
  "progress_le download_id d d' \<longleftrightarrow>
     (\<forall>a b. d download_id = Some a \<longrightarrow> d' download_id = Some b \<longrightarrow> progress a \<le> progress b)"

text \<open>A job record as the creation endpoint leaves it, but for the progress and the message.\<close>

definition still_starting :: "string \<Rightarrow> registry \<Rightarrow> bool" where
  "still_starting download_id d \<longleftrightarrow>
     (\<exists>info. d download_id = Some info \<and> status info = ''starting'' \<and> errors info = []
        \<and> zip_path info = None)"

text \<open>The first fetch raises; the second writes one file.\<close>

definition example_env_single :: env where
  "example_env_single = \<lparr>home = ''/home/u'', mkdir_error = None,
     ydl_download = (\<lambda>i url.
        if i = 0 then \<lparr>events = [], failure = Some ''ERROR: Video unavailable''\<rparr>
        else \<lparr>events = example_events ''01 - b.mp4'', failure = None\<rparr>),
     listdir = [(''01 - b.mp4'', Regular_file ''video'')],
     zip_error = None\<rparr>"

section \<open>The value of a double\<close>

text \<open>
  For the proofs, a double is read as a real number, and the rounding of a fraction is
  restated on reals.
\<close>

definition dval :: "double \<Rightarrow> real" where
  "dval x = (case x of (m, e) \<Rightarrow> real_of_int m * 2 powr real_of_int e)"

definition rhe_real :: "real \<Rightarrow> int" where
  "rhe_real s =
    (let f = \<lfloor>s\<rfloor>; d = s - of_int f
     in if d < 1 / 2 then f else if 1 / 2 < d then f + 1 else if even f then f else f + 1)"

section \<open>Rounding to a double is monotone\<close>

lemma powr_step_down:
  fixes x y :: real
  assumes "2 powr x \<le> 2 * y" "2 * y < 2 powr (x + 1)"
  shows "2 powr (x - 1) \<le> y" "y < 2 powr (x - 1 + 1)"
  using assms by (simp_all add: powr_diff powr_add)

lemma powr_step_up:
  fixes x y :: real
  assumes "2 powr x \<le> y / 2" "y / 2 < 2 powr (x + 1)"
  shows "2 powr (x + 1) \<le> y" "y < 2 powr (x + 1 + 1)"
  using assms by (simp_all add: powr_add)

lemma ilog2_bounds:
  "0 < p \<Longrightarrow> 0 < q \<Longrightarrow>
     2 powr real_of_int (ilog2 p q) \<le> real_of_int p / real_of_int q
     \<and> real_of_int p / real_of_int q < 2 powr (real_of_int (ilog2 p q) + 1)"
proof (induction p q rule: ilog2.induct)
  case (1 p q)
  let ?y = "real_of_int p / real_of_int q"
  show ?case
  proof (cases "p < q")
    case True
    with 1 have e: "ilog2 p q = ilog2 (2 * p) q - 1"
      by (subst ilog2.simps) simp
    from 1 True have ih: "2 powr real_of_int (ilog2 (2 * p) q) \<le> 2 * ?y"
       "2 * ?y < 2 powr (real_of_int (ilog2 (2 * p) q) + 1)"
      by simp_all
    from powr_step_down [OF ih] show ?thesis
      unfolding e by simp
  next
    case False
    show ?thesis
    proof (cases "2 * q \<le> p")
      case True
      with 1 False have e: "ilog2 p q = ilog2 p (2 * q) + 1"
        by (subst ilog2.simps) simp
      from 1 True False have ih: "2 powr real_of_int (ilog2 p (2 * q)) \<le> ?y / 2"
         "?y / 2 < 2 powr (real_of_int (ilog2 p (2 * q)) + 1)"
        by simp_all
      from powr_step_up [OF ih] show ?thesis
        unfolding e by simp
    next
      case F2: False
      with 1 False have e: "ilog2 p q = 0"
        by (subst ilog2.simps) simp
      from 1(3,4) False F2 have "real_of_int q \<le> real_of_int p" "real_of_int p < 2 * real_of_int q"
        by linarith+
      with 1(4) show ?thesis
        unfolding e by (simp add: field_simps)
    qed
  qed
qed

lemma round_half_even_real:
  assumes "0 < q"
  shows "round_half_even p q = rhe_real (real_of_int p / real_of_int q)"
proof -
  let ?s = "real_of_int p / real_of_int q"
  have f: "\<lfloor>?s\<rfloor> = p div q"
    by (simp add: floor_divide_of_int_eq)
  have "real_of_int p = real_of_int (p div q) * real_of_int q + real_of_int (p mod q)"
    by (metis of_int_add of_int_mult div_mult_mod_eq)
  with assms have d: "?s - of_int (p div q) = real_of_int (p mod q) / real_of_int q"
    by (simp add: field_simps)
  from assms have lt: "real_of_int (p mod q) / real_of_int q < 1 / 2 \<longleftrightarrow> 2 * (p mod q) < q"
    by (simp add: field_simps) linarith
  from assms have gt: "1 / 2 < real_of_int (p mod q) / real_of_int q \<longleftrightarrow> q < 2 * (p mod q)"
    by (simp add: field_simps) linarith
  show ?thesis
    unfolding round_half_even_def rhe_real_def Let_def
    unfolding f d lt gt ..
qed

lemma rhe_real_floor: "\<lfloor>s\<rfloor> \<le> rhe_real s" "rhe_real s \<le> \<lfloor>s\<rfloor> + 1"
  by (simp_all add: rhe_real_def Let_def)

lemma rhe_real_ge: "of_int k \<le> s \<Longrightarrow> k \<le> rhe_real s"
proof -
  assume "of_int k \<le> s"
  then have "k \<le> \<lfloor>s\<rfloor>" by (simp add: le_floor_iff)
  with rhe_real_floor(1) [of s] show ?thesis by linarith
qed

lemma rhe_real_le: "s \<le> of_int k \<Longrightarrow> rhe_real s \<le> k"
proof (cases "s = of_int k")
  case True
  then show ?thesis by (simp add: rhe_real_def)
next
  case False
  assume "s \<le> of_int k"
  with False have "s < of_int k" by simp
  then have "\<lfloor>s\<rfloor> < k" by (simp add: floor_less_iff)
  with rhe_real_floor(2) [of s] show ?thesis by linarith
qed

lemma rhe_real_of_int: "rhe_real (of_int k) = k"
  by (simp add: rhe_real_def)

lemma rhe_real_mono:
  assumes "s \<le> t"
  shows "rhe_real s \<le> rhe_real t"
proof (cases "\<lfloor>s\<rfloor> = \<lfloor>t\<rfloor>")
  case True
  with assms have "s - of_int \<lfloor>s\<rfloor> \<le> t - of_int \<lfloor>t\<rfloor>" by simp
  with True show ?thesis
    by (auto simp: rhe_real_def Let_def)
next
  case False
  with assms have "\<lfloor>s\<rfloor> < \<lfloor>t\<rfloor>"
    by (simp add: floor_mono order.not_eq_order_implies_strict)
  with rhe_real_floor(2) [of s] rhe_real_floor(1) [of t] show ?thesis by linarith
qed

lemma two_powr_nat: "2 powr real_of_int (int n) = (2::real) ^ n"
  by (simp add: powr_realpow)

lemma two_powr_neg: "e < 0 \<Longrightarrow> 2 powr real_of_int e = 1 / (2::real) ^ nat (- e)"
proof -
  assume "e < 0"
  then have "real_of_int e = - real (nat (- e))" by simp
  then have "2 powr real_of_int e = 2 powr (- real (nat (- e)))" by (rule arg_cong)
  also have "\<dots> = 1 / 2 powr real (nat (- e))" by (simp add: powr_minus divide_inverse)
  also have "\<dots> = 1 / (2::real) ^ nat (- e)" by (simp add: powr_realpow)
  finally show ?thesis .
qed

lemma two_powr_pos: "0 \<le> e \<Longrightarrow> 2 powr real_of_int e = (2::real) ^ nat e"
proof -
  assume "0 \<le> e"
  then have "real_of_int e = real (nat e)" by simp
  then have "2 powr real_of_int e = 2 powr real (nat e)" by (rule arg_cong)
  then show ?thesis by (simp add: powr_realpow)
qed

lemma rhe_scale_up:
  assumes "0 < q"
  shows "round_half_even (p * 2 ^ n) q = rhe_real (real_of_int p / real_of_int q * 2 ^ n)"
proof -
  have "real_of_int (p * 2 ^ n) / real_of_int q = real_of_int p / real_of_int q * 2 ^ n"
    by simp
  then show ?thesis
    using round_half_even_real [OF assms, of "p * 2 ^ n"] by (simp only:)
qed

lemma rhe_scale_down:
  assumes "0 < q"
  shows "round_half_even p (q * 2 ^ n) = rhe_real (real_of_int p / real_of_int q / 2 ^ n)"
proof -
  from assms have pos: "0 < q * 2 ^ n" by simp
  have "real_of_int p / real_of_int (q * 2 ^ n) = real_of_int p / real_of_int q / 2 ^ n"
    by simp
  then show ?thesis
    using round_half_even_real [OF pos, of p] by (simp only:)
qed

lemma nearest_double_unfold:
  assumes "0 < p" and "e = ilog2 p q - 52"
  shows "nearest_double p q =
    (if e < 0 then round_half_even (p * 2 ^ nat (- e)) q
     else round_half_even p (q * 2 ^ nat e), e)"
  using assms unfolding nearest_double_def Let_def by auto

lemma nearest_double_mantissa:
  assumes "0 < p" "0 < q" and e: "e = ilog2 p q - 52"
  shows "nearest_double p q =
    (rhe_real (real_of_int p / real_of_int q / 2 powr real_of_int e), e)"
proof (cases "e < 0")
  case True
  have "real_of_int p / real_of_int q * 2 ^ nat (- e)
      = real_of_int p / real_of_int q / 2 powr real_of_int e"
    unfolding two_powr_neg [OF True] by simp
  with True show ?thesis
    unfolding nearest_double_unfold [OF assms(1) e] rhe_scale_up [OF assms(2)] by simp
next
  case False
  then have nn: "0 \<le> e" by simp
  from False show ?thesis
    unfolding nearest_double_unfold [OF assms(1) e] rhe_scale_down [OF assms(2)]
    by (simp add: two_powr_pos [OF nn])
qed


lemma scale_lower:
  fixes x L K :: real
  assumes "0 < L" "0 < K" "L \<le> x"
  shows "K \<le> x / (L / K)"
proof -
  from assms have "K * L \<le> x * K" by simp
  with assms(1) have "K \<le> x * K / L" by (simp add: field_simps)
  then show ?thesis by simp
qed

lemma scale_upper:
  fixes x L K :: real
  assumes "0 < L" "0 < K" "x < L * 2"
  shows "x / (L / K) < K * 2"
proof -
  from assms have "x * K < K * 2 * L" by simp
  with assms(1) have "x * K / L < K * 2" by (simp add: field_simps)
  then show ?thesis by simp
qed

lemma scaled_bounds:
  assumes "0 < p" "0 < q"
  shows "2 ^ 52 \<le> real_of_int p / real_of_int q / 2 powr real_of_int (ilog2 p q - 52)"
    and "real_of_int p / real_of_int q / 2 powr real_of_int (ilog2 p q - 52) < 2 ^ 53"
proof -
  let ?x = "real_of_int p / real_of_int q"
  let ?L = "real_of_int (ilog2 p q)"
  have "2 powr (?L - real_of_int (int 52)) = 2 powr ?L / 2 powr real_of_int (int 52)"
    by (rule powr_diff)
  then have d: "2 powr real_of_int (ilog2 p q - 52) = 2 powr ?L / 2 ^ 52"
    unfolding two_powr_nat by simp
  from ilog2_bounds [OF assms] have b: "2 powr ?L \<le> ?x" "?x < 2 powr ?L * 2"
    by (simp_all add: powr_add)
  have pos: "0 < 2 powr ?L" by simp
  have k: "(0::real) < 2 ^ 52" by (rule zero_less_power) simp
  have s: "(2::real) ^ 53 = 2 ^ 52 * 2" by (simp only: power_Suc2 [symmetric]) simp
  from scale_lower [OF pos k b(1)] show "2 ^ 52 \<le> ?x / 2 powr real_of_int (ilog2 p q - 52)"
    unfolding d .
  from scale_upper [OF pos k b(2)] show "?x / 2 powr real_of_int (ilog2 p q - 52) < 2 ^ 53"
    unfolding d s .
qed

lemma dval_pair: "dval (m, e) = real_of_int m * 2 powr real_of_int e"
  by (simp add: dval_def)

lemma nearest_double_pos_mono:
  assumes p: "0 < p" "0 < q" and p': "0 < p'" "0 < q'"
    and le: "real_of_int p / real_of_int q \<le> real_of_int p' / real_of_int q'"
  shows "dval (nearest_double p q) \<le> dval (nearest_double p' q')"
proof -
  define e where "e = ilog2 p q - 52"
  define e' where "e' = ilog2 p' q' - 52"
  define x where "x = real_of_int p / real_of_int q"
  define x' where "x' = real_of_int p' / real_of_int q'"
  define K :: real where "K = 2 ^ 52"
  define P where "P = 2 powr real_of_int e"
  define P' where "P' = 2 powr real_of_int e'"
  have Kint: "K = real_of_int (2 ^ 52)" "K * 2 = real_of_int (2 ^ 53)"
    by (simp_all add: K_def)
  have K: "0 < K" by (simp add: K_def)
  have P: "0 < P" "0 < P'" by (simp_all add: P_def P'_def)
  have nd: "nearest_double p q = (rhe_real (x / P), e)"
    unfolding x_def P_def by (rule nearest_double_mantissa [OF p e_def])
  have nd': "nearest_double p' q' = (rhe_real (x' / P'), e')"
    unfolding x'_def P'_def by (rule nearest_double_mantissa [OF p' e'_def])
  have b: "K \<le> x / P" "x / P < K * 2"
    using scaled_bounds [OF p] unfolding x_def P_def e_def K_def by simp_all
  have b': "K \<le> x' / P'" "x' / P' < K * 2"
    using scaled_bounds [OF p'] unfolding x'_def P'_def e'_def K_def by simp_all
  from b P have xb: "K * P \<le> x" "x < K * 2 * P" by (simp_all add: field_simps)
  from b' P have xb': "K * P' \<le> x'" "x' < K * 2 * P'" by (simp_all add: field_simps)
  from le have xx: "x \<le> x'" by (simp add: x_def x'_def)
  have m_lo: "2 ^ 52 \<le> rhe_real (x' / P')"
    by (rule rhe_real_ge) (use b'(1) Kint in simp)
  have m_hi: "rhe_real (x / P) \<le> 2 ^ 53"
    by (rule rhe_real_le) (use b(2) Kint in simp)
  have ee: "e \<le> e'"
  proof (rule ccontr)
    assume "\<not> e \<le> e'"
    then have "real_of_int e' + 1 \<le> real_of_int e" by linarith
    then have "2 powr (real_of_int e' + 1) \<le> P" unfolding P_def by simp
    then have "P' * 2 \<le> P" unfolding P'_def by (simp add: powr_add)
    with K have "K * (P' * 2) \<le> K * P" by simp
    with xb(1) xb'(2) xx show False by (simp add: mult.assoc mult.commute)
  qed
  show ?thesis
  proof (cases "e = e'")
    case True
    then have "P = P'" by (simp add: P_def P'_def)
    with xx P have "x / P \<le> x' / P'" by (simp add: divide_right_mono)
    then have "rhe_real (x / P) \<le> rhe_real (x' / P')" by (rule rhe_real_mono)
    with \<open>P = P'\<close> P show ?thesis
      unfolding nd nd' dval_pair P_def [symmetric] P'_def [symmetric]
      by (simp add: mult_right_mono)
  next
    case False
    with ee have "real_of_int e + 1 \<le> real_of_int e'" by linarith
    then have "2 powr (real_of_int e + 1) \<le> P'" unfolding P'_def by simp
    then have PP: "P * 2 \<le> P'" unfolding P_def by (simp add: powr_add)
    from m_hi have "real_of_int (rhe_real (x / P)) \<le> real_of_int (2 ^ 53)"
      by (simp only: of_int_le_iff)
    then have "real_of_int (rhe_real (x / P)) \<le> K * 2"
      by (simp only: Kint(2))
    with P have 1: "real_of_int (rhe_real (x / P)) * P \<le> K * 2 * P"
      by (simp add: mult_right_mono)
    from m_lo have "real_of_int (2 ^ 52) \<le> real_of_int (rhe_real (x' / P'))"
      by (simp only: of_int_le_iff)
    then have "K \<le> real_of_int (rhe_real (x' / P'))"
      by (simp only: Kint(1))
    with P have 2: "K * P' \<le> real_of_int (rhe_real (x' / P')) * P'"
      by (simp add: mult_right_mono)
    from PP K have "K * (P * 2) \<le> K * P'" by simp
    moreover have "K * 2 * P = K * (P * 2)" by simp
    ultimately have "real_of_int (rhe_real (x / P)) * P \<le> real_of_int (rhe_real (x' / P')) * P'"
      using 1 2 by linarith
    then show ?thesis
      unfolding nd nd' dval_pair P_def [symmetric] P'_def [symmetric] .
  qed
qed

lemma nearest_double_zero: "nearest_double 0 q = (0, 0)"
  by (simp add: nearest_double_def)

lemma nearest_double_fst_nonneg:
  assumes "0 \<le> p" "0 < q"
  shows "0 \<le> fst (nearest_double p q)"
proof (cases "p = 0")
  case True
  then show ?thesis by (simp add: nearest_double_zero)
next
  case False
  with assms have p: "0 < p" by simp
  have "(2::int) ^ 52 \<le> rhe_real (real_of_int p / real_of_int q / 2 powr real_of_int (ilog2 p q - 52))"
    by (rule rhe_real_ge) (use scaled_bounds(1) [OF p assms(2)] in simp)
  then have "0 \<le> rhe_real (real_of_int p / real_of_int q / 2 powr real_of_int (ilog2 p q - 52))"
    by simp
  then show ?thesis
    unfolding nearest_double_mantissa [OF p assms(2) refl] by simp
qed

lemma dval_nonneg: "0 \<le> fst x \<Longrightarrow> 0 \<le> dval x"
  by (cases x) (simp add: dval_def)

lemma nearest_double_mono:
  assumes "0 \<le> p" "0 < q" "0 \<le> p'" "0 < q'"
    and le: "real_of_int p / real_of_int q \<le> real_of_int p' / real_of_int q'"
  shows "dval (nearest_double p q) \<le> dval (nearest_double p' q')"
proof (cases "p = 0")
  case True
  have "0 \<le> dval (nearest_double p' q')"
    by (rule dval_nonneg) (rule nearest_double_fst_nonneg [OF assms(3,4)])
  with True show ?thesis by (simp add: nearest_double_zero dval_def)
next
  case False
  with assms have p: "0 < p" by simp
  with assms(2) have "0 < real_of_int p / real_of_int q" by simp
  with le have "0 < real_of_int p' / real_of_int q'" by linarith
  with assms(4) have "0 < p'" by (simp add: zero_less_divide_iff)
  from nearest_double_pos_mono [OF p assms(2) this assms(4) le] show ?thesis .
qed

lemma float_mul_int_eq:
  assumes "0 \<le> fst x" "0 \<le> k"
  shows "\<exists>P Q. float_mul_int x k = nearest_double P Q \<and> 0 \<le> P \<and> 0 < Q
            \<and> real_of_int P / real_of_int Q = dval x * real_of_int k"
proof (cases x)
  case (Pair m e)
  with assms have m: "0 \<le> m" by simp
  show ?thesis
  proof (cases "e < 0")
    case True
    have "real_of_int (m * k) / real_of_int (2 ^ nat (- e)) = dval x * real_of_int k"
      unfolding Pair dval_pair two_powr_neg [OF True] by simp
    moreover have "float_mul_int x k = nearest_double (m * k) (2 ^ nat (- e))"
      using True by (simp add: float_mul_int_def Pair)
    moreover have "0 \<le> m * k" using m assms(2) by simp
    moreover have "(0::int) < 2 ^ nat (- e)" by simp
    ultimately show ?thesis by blast
  next
    case False
    then have nn: "0 \<le> e" by simp
    have "real_of_int (m * k * 2 ^ nat e) / real_of_int 1 = dval x * real_of_int k"
      unfolding Pair dval_pair two_powr_pos [OF nn] by simp
    moreover have "float_mul_int x k = nearest_double (m * k * 2 ^ nat e) 1"
      using False by (simp add: float_mul_int_def Pair)
    moreover have "0 \<le> m * k * 2 ^ nat e" using m assms(2) by simp
    ultimately show ?thesis by (metis zero_less_one)
  qed
qed

lemma float_mul_int_mono:
  assumes "0 \<le> fst x" "0 \<le> fst y" "0 \<le> k" "dval x \<le> dval y"
  shows "dval (float_mul_int x k) \<le> dval (float_mul_int y k)"
proof -
  from float_mul_int_eq [OF assms(1,3)] obtain P Q where
    x: "float_mul_int x k = nearest_double P Q" "0 \<le> P" "0 < Q"
       "real_of_int P / real_of_int Q = dval x * real_of_int k" by blast
  from float_mul_int_eq [OF assms(2,3)] obtain P' Q' where
    y: "float_mul_int y k = nearest_double P' Q'" "0 \<le> P'" "0 < Q'"
       "real_of_int P' / real_of_int Q' = dval y * real_of_int k" by blast
  from assms(3,4) have "dval x * real_of_int k \<le> dval y * real_of_int k"
    by (simp add: mult_right_mono)
  then have "real_of_int P / real_of_int Q \<le> real_of_int P' / real_of_int Q'"
    unfolding x(4) y(4) .
  from nearest_double_mono [OF x(2,3) y(2,3) this] show ?thesis
    unfolding x(1) y(1) .
qed

lemma float_mul_int_fst_nonneg:
  assumes "0 \<le> fst x" "0 \<le> k"
  shows "0 \<le> fst (float_mul_int x k)"
  using float_mul_int_eq [OF assms] nearest_double_fst_nonneg by metis

lemma py_int_floor:
  assumes "0 \<le> fst x"
  shows "py_int x = \<lfloor>dval x\<rfloor>"
proof (cases x)
  case (Pair m e)
  show ?thesis
  proof (cases "e < 0")
    case True
    have "\<lfloor>real_of_int m / real_of_int (2 ^ nat (- e))\<rfloor> = m div 2 ^ nat (- e)"
      by (rule floor_divide_of_int_eq)
    then have "\<lfloor>dval x\<rfloor> = m div 2 ^ nat (- e)"
      unfolding Pair dval_pair two_powr_neg [OF True] by simp
    with True show ?thesis by (simp add: py_int_def Pair)
  next
    case False
    then have nn: "0 \<le> e" by simp
    have "dval x = real_of_int (m * 2 ^ nat e)"
      unfolding Pair dval_pair two_powr_pos [OF nn] by simp
    then have "\<lfloor>dval x\<rfloor> = m * 2 ^ nat e"
      by (simp only: floor_of_int)
    with False show ?thesis by (simp add: py_int_def Pair)
  qed
qed

lemma overall_progress_mono:
  assumes "0 \<le> c" "0 < t" "0 \<le> c'" "0 < t'"
    and le: "real_of_int c / real_of_int t \<le> real_of_int c' / real_of_int t'"
  shows "overall_progress c t \<le> overall_progress c' t'"
proof -
  have a: "0 \<le> fst (py_truediv c t)" "0 \<le> fst (py_truediv c' t')"
    unfolding py_truediv_def
    by (rule nearest_double_fst_nonneg [OF assms(1,2)], rule nearest_double_fst_nonneg [OF assms(3,4)])
  have "dval (py_truediv c t) \<le> dval (py_truediv c' t')"
    unfolding py_truediv_def by (rule nearest_double_mono [OF assms])
  from float_mul_int_mono [OF a _ this, of 90]
  have "dval (float_mul_int (py_truediv c t) 90) \<le> dval (float_mul_int (py_truediv c' t') 90)"
    by simp
  then have "\<lfloor>dval (float_mul_int (py_truediv c t) 90)\<rfloor>
      \<le> \<lfloor>dval (float_mul_int (py_truediv c' t') 90)\<rfloor>"
    by (rule floor_mono)
  moreover have "0 \<le> fst (float_mul_int (py_truediv c t) 90)"
    by (rule float_mul_int_fst_nonneg [OF a(1)]) simp
  moreover have "0 \<le> fst (float_mul_int (py_truediv c' t') 90)"
    by (rule float_mul_int_fst_nonneg [OF a(2)]) simp
  ultimately show ?thesis
    unfolding overall_progress_def by (simp add: py_int_floor)
qed

section \<open>Invariants of a run\<close>

lemma sublist_eval:
  "sublist xs [] \<longleftrightarrow> xs = []"
  "sublist xs (y # ys) \<longleftrightarrow> prefix xs (y # ys) \<or> sublist xs ys"
  by (simp_all add: sublist_Cons_right)

lemma progress_hook_raises:
  "progress_hook download_id total_count d r = Inl (e, r') \<Longrightarrow>
     r' = r \<or> r' = r\<lparr>completed := completed r + 1\<rparr>"
  by (auto simp: progress_hook_def split: if_splits option.splits)

lemma final_state_simps [simp]:
  "final_state (Inl (e, r)) = r" "final_state (Inr r) = r"
  by (simp_all add: final_state_def)

lemma run_hooks_invariant:
  assumes "P r"
    and hook: "\<And>d r r'. P r \<Longrightarrow> progress_hook download_id total_count d r = Inr r' \<Longrightarrow> P r'"
    and bump: "\<And>r. P r \<Longrightarrow> P (r\<lparr>completed := completed r + 1\<rparr>)"
  shows "P (final_state (run_hooks download_id total_count ds r))"
  using assms(1)
proof (induction ds arbitrary: r)
  case Nil
  then show ?case by simp
next
  case (Cons d ds)
  show ?case
  proof (cases "progress_hook download_id total_count d r")
    case (Inl x)
    obtain e r' where x: "x = (e, r')" by (cases x)
    with Inl progress_hook_raises have "r' = r \<or> r' = r\<lparr>completed := completed r + 1\<rparr>"
      by blast
    with Cons.prems bump have "P r'" by auto
    with Inl x show ?thesis by simp
  next
    case (Inr r')
    with Cons.prems hook have "P r'" by blast
    with Cons.IH Inr show ?thesis by simp
  qed
qed

lemma download_each_invariant:
  assumes "P r"
    and hook: "\<And>d r r'. P r \<Longrightarrow> progress_hook download_id total_count d r = Inr r' \<Longrightarrow> P r'"
    and bump: "\<And>r. P r \<Longrightarrow> P (r\<lparr>completed := completed r + 1\<rparr>)"
    and caught: "\<And>r msg. P r \<Longrightarrow> P (r\<lparr>errs := errs r @ [msg]\<rparr>)"
  shows "P (download_each env download_id total_count i urls r)"
  using assms(1)
proof (induction urls arbitrary: i r)
  case Nil
  then show ?case by simp
next
  case (Cons url urls)
  from Cons.prems hook bump
  have h: "P (final_state (run_hooks download_id total_count (events (ydl_download env i url)) r))"
    by (rule run_hooks_invariant)
  show ?case
  proof (cases "run_hooks download_id total_count (events (ydl_download env i url)) r")
    case (Inl x)
    obtain e r' where x: "x = (e, r')" by (cases x)
    with h Inl have "P r'" by simp
    then have "P (r'\<lparr>errs := errs r' @ [str_exn e]\<rparr>)" by (rule caught)
    with Cons.IH Inl x show ?thesis by simp
  next
    case (Inr r')
    with h have "P r'" by simp
    then have "P (case failure (ydl_download env i url) of
                    None \<Rightarrow> r' | Some msg \<Rightarrow> r'\<lparr>errs := errs r' @ [msg]\<rparr>)"
      by (simp add: caught split: option.split)
    with Cons.IH Inr show ?thesis by simp
  qed
qed

text \<open>A property of the registry that every block under the lock keeps holds in every
  state that a run makes visible.\<close>

lemma observed_invariant:
  assumes init: "Q downloads"
    and upd: "\<And>d info f c. Q d \<Longrightarrow> d download_id = Some info \<Longrightarrow>
                 Q (d(download_id \<mapsto> info\<lparr>progress := f, current := c\<rparr>))"
    and upd2: "\<And>d info c. Q d \<Longrightarrow> d download_id = Some info \<Longrightarrow>
                 Q (d(download_id \<mapsto> info\<lparr>current := c\<rparr>))"
    and fin: "\<And>d info z c es. Q d \<Longrightarrow> d download_id = Some info \<Longrightarrow>
                 Q (d(download_id \<mapsto> info\<lparr>status := ''completed'', progress := 100,
                      zip_path := Some z, current := c, errors := es\<rparr>))"
  shows "list_all Q (observed (final_state (download_videos env urls download_id quality downloads)))"
proof -
  define P :: "runner \<Rightarrow> bool"
    where "P r \<longleftrightarrow> Q (r_downloads r) \<and> list_all Q (observed r)" for r
  define r0 where "r0 = \<lparr>completed = 0, errs = [], r_downloads = downloads, written = None,
               observed = [downloads]\<rparr>"
  have P0: "P r0" using init by (simp add: P_def r0_def)
  have hook: "P r'" if "P r" "progress_hook download_id t d r = Inr r'" for d r r' t
    using that upd upd2
    by (auto simp: P_def progress_hook_def release_def split: if_splits option.splits)
  have caught: "P (r\<lparr>errs := errs r @ [msg]\<rparr>)" if "P r" for r msg
    using that by (simp add: P_def)
  have bump: "P (r\<lparr>completed := completed r + 1\<rparr>)" if "P r" for r
    using that by (simp add: P_def)
  define r1 where "r1 = download_each env download_id (int (length urls)) 0 urls r0"
  have r1: "P r1"
    unfolding r1_def using P0 hook bump caught by (rule download_each_invariant)
  have "P (final_state (download_videos env urls download_id quality downloads))"
  proof (cases "mkdir_error env")
    case (Some msg)
    with P0 show ?thesis by (simp add: download_videos_def r0_def)
  next
    case None
    show ?thesis
    proof (cases "zip_error env")
      case (Some msg)
      with r1 None show ?thesis
        by (simp add: download_videos_def Let_def r0_def [symmetric] r1_def [symmetric])
    next
      case zok: None
      from r1 fin have "P (final_state (finish download_id t z (r1\<lparr>written := w\<rparr>)))" for t z w
        by (auto simp: P_def finish_def release_def split: option.splits)
      with None zok show ?thesis
        by (simp add: download_videos_def Let_def r0_def [symmetric] r1_def [symmetric])
    qed
  qed
  then show ?thesis by (simp add: P_def)
qed


lemma start_download_keeps_errors_only_when_completed:
  "errors_only_when_completed downloads \<Longrightarrow>
   errors_only_when_completed (fst (snd (start_download data uuid4 now downloads)))"
  by (simp add: start_download_def Let_def errors_only_when_completed_def)

lemma example_start:
  "start_download example_request ''123e4567-e89b-42d3-a456-426614174000'' 0 Map.empty
     = (Success ''123e4567'', [''123e4567'' \<mapsto> example_job],
        Some \<lparr>t_urls = [''https://youtu.be/a'', ''https://www.youtube.com/watch?v=b''],
              t_download_id = ''123e4567'', t_quality = ''720''\<rparr>)"
  by (simp add: start_download_def example_request_def example_job_def
        is_valid_youtube_url_def sublist_eval Let_def)

lemma overall_progress_values:
  "overall_progress 0 2 = 0" "overall_progress 1 2 = 45" "overall_progress 2 2 = 90"
  "overall_progress 0 1 = 0" "overall_progress 1 1 = 90" "overall_progress 2 1 = 180"
  "overall_progress 7 10 = 62"
  by code_simp+

lemma str_int_values: "str_int 0 = ''0''" "str_int 1 = ''1''" "str_int 2 = ''2''" "str_int 3 = ''3''"
  by code_simp+

lemma zip_entries_set:
  "set (zip_entries listing) = {(f, bytes). (f, Regular_file bytes) \<in> set listing}"
  by (induction listing rule: zip_entries.induct) auto

lemma zip_entries_names: "set (map fst (zip_entries listing)) \<subseteq> set (map fst listing)"
  by (induction listing rule: zip_entries.induct) auto

lemma zip_entries_distinct:
  "distinct (map fst listing) \<Longrightarrow> distinct (map fst (zip_entries listing))"
proof (induction listing rule: zip_entries.induct)
  case (2 f bytes rest)
  with zip_entries_names [of rest] show ?case by auto
qed simp_all

lemma zip_path_of_inj: "zip_path_of h i = zip_path_of h j \<Longrightarrow> i = j"
  by (simp add: zip_path_of_def joinpath_def split: if_splits)

lemma download_videos_returns:
  assumes "download_videos env urls download_id quality downloads = Inr r"
  shows "written r = Some (zip_path_of (home env) download_id, zip_entries (listdir env))"
    and "\<exists>info. r_downloads r download_id = Some info
           \<and> zip_path info = Some (zip_path_of (home env) download_id)
           \<and> status info = ''completed''"
  using assms
  by (auto simp: download_videos_def finish_def release_def Let_def
           split: option.splits sum.splits)

lemma overall_progress_zero: "overall_progress 0 t = 0"
  by (simp add: overall_progress_def py_truediv_def nearest_double_zero float_mul_int_def py_int_def)

lemma overall_progress_nonneg:
  assumes "0 \<le> c" "0 < t"
  shows "0 \<le> overall_progress c t"
proof -
  from assms have "real_of_int 0 / real_of_int t \<le> real_of_int c / real_of_int t"
    by (simp add: divide_right_mono)
  from overall_progress_mono [OF _ assms(2) assms this] show ?thesis
    by (simp add: overall_progress_zero)
qed

lemma overall_progress_le_90:
  assumes "0 \<le> c" "c \<le> t" "0 < t"
  shows "overall_progress c t \<le> 90"
proof -
  from assms have "real_of_int c / real_of_int t \<le> real_of_int 1 / real_of_int 1"
    by simp
  from overall_progress_mono [OF assms(1,3) _ _ this] show ?thesis
    by (simp add: overall_progress_values)
qed

lemma overall_progress_Suc:
  assumes "0 \<le> c" "0 < t"
  shows "overall_progress c t \<le> overall_progress (c + 1) t"
proof -
  from assms have "real_of_int c / real_of_int t \<le> real_of_int (c + 1) / real_of_int t"
    by (simp add: divide_right_mono)
  from assms(1) have "0 \<le> c + 1" by simp
  from overall_progress_mono [OF assms this assms(2) \<open>real_of_int c / real_of_int t \<le> real_of_int (c + 1) / real_of_int t\<close>]
  show ?thesis .
qed

lemma release_observed [simp]:
  "observed (release r) = observed r @ [r_downloads r]"
  "r_downloads (release r) = r_downloads r"
  "completed (release r) = completed r"
  "errs (release r) = errs r"
  "written (release r) = written r"
  by (simp_all add: release_def)



lemma start_download_success:
  assumes "start_download data uuid4 now downloads = (Success download_id, downloads', started)"
  shows "\<exists>args. started = Some args \<and> t_download_id args = download_id \<and> t_urls args \<noteq> []"
    and "downloads' download_id = Some \<lparr>status = ''starting'', progress = 0,
           current = ''Initializing'', errors = [], timestamp = now, zip_path = None\<rparr>"
  using assms by (auto simp: start_download_def Let_def split: if_splits)



lemma finished_count_simps [simp]:
  "finished_count [] = 0"
  "finished_count (d # ds) = (if ev_status d = ''finished'' then 1 else 0) + finished_count ds"
  by (simp_all add: finished_count_def)

lemma progress_hook_effect:
  assumes "r_downloads r download_id = Some info" and "total_count \<noteq> 0"
  shows "\<exists>r1 info1. progress_hook download_id total_count d r = Inr r1
           \<and> completed r1 = completed r + (if ev_status d = ''finished'' then 1 else 0)
           \<and> errs r1 = errs r \<and> written r1 = written r
           \<and> r_downloads r1 download_id = Some info1
           \<and> status info1 = status info \<and> errors info1 = errors info
           \<and> zip_path info1 = zip_path info"
  using assms by (auto simp: progress_hook_def)

lemma run_hooks_effect:
  assumes "r_downloads r download_id = Some info" and "total_count \<noteq> 0"
  shows "\<exists>r' info'. run_hooks download_id total_count ds r = Inr r'
           \<and> completed r' = completed r + finished_count ds
           \<and> errs r' = errs r \<and> written r' = written r
           \<and> r_downloads r' download_id = Some info'
           \<and> status info' = status info \<and> errors info' = errors info
           \<and> zip_path info' = zip_path info"
  using assms(1)
proof (induction ds arbitrary: r info)
  case Nil
  then show ?case by simp
next
  case (Cons d ds)
  from progress_hook_effect [OF Cons.prems assms(2), of d] obtain r1 info1 where
    h: "progress_hook download_id total_count d r = Inr r1"
    and c: "completed r1 = completed r + (if ev_status d = ''finished'' then 1 else 0)"
    and k: "errs r1 = errs r" "written r1 = written r"
    and i: "r_downloads r1 download_id = Some info1" "status info1 = status info"
           "errors info1 = errors info" "zip_path info1 = zip_path info"
    by blast
  from Cons.IH [OF i(1)] obtain r' info' where
    "run_hooks download_id total_count ds r1 = Inr r'"
    "completed r' = completed r1 + finished_count ds"
    "errs r' = errs r1" "written r' = written r1"
    "r_downloads r' download_id = Some info'"
    "status info' = status info1" "errors info' = errors info1" "zip_path info' = zip_path info1"
    by blast
  with h c k i show ?case by simp
qed

lemma download_each_effect:
  assumes "r_downloads r download_id = Some info" and "total_count \<noteq> 0"
  shows "\<exists>r' info'. download_each env download_id total_count i urls r = r'
           \<and> completed r' = completed r
                + sum_list (map (\<lambda>f. finished_count (events f)) (fetch_runs env i urls))
           \<and> errs r' = errs r @ List.map_filter failure (fetch_runs env i urls)
           \<and> written r' = written r
           \<and> r_downloads r' download_id = Some info'
           \<and> status info' = status info \<and> errors info' = errors info
           \<and> zip_path info' = zip_path info"
  using assms(1)
proof (induction urls arbitrary: i r info)
  case Nil
  then show ?case by simp
next
  case (Cons url urls)
  define f where "f = ydl_download env i url"
  from run_hooks_effect [OF Cons.prems assms(2), of "events f"] obtain r1 info1 where
    h: "run_hooks download_id total_count (events f) r = Inr r1"
    and c: "completed r1 = completed r + finished_count (events f)"
    and k: "errs r1 = errs r" "written r1 = written r"
    and i: "r_downloads r1 download_id = Some info1" "status info1 = status info"
           "errors info1 = errors info" "zip_path info1 = zip_path info"
    by blast
  define r2 where "r2 = (case failure f of None \<Rightarrow> r1 | Some msg \<Rightarrow> r1\<lparr>errs := errs r1 @ [msg]\<rparr>)"
  have r2: "completed r2 = completed r1" "written r2 = written r1"
    "r_downloads r2 = r_downloads r1"
    "errs r2 = errs r1 @ (case failure f of None \<Rightarrow> [] | Some msg \<Rightarrow> [msg])"
    by (simp_all add: r2_def split: option.split)
  from i(1) r2(3) have "r_downloads r2 download_id = Some info1" by simp
  from Cons.IH [OF this, of "Suc i"] obtain r' info' where
    e: "download_each env download_id total_count (Suc i) urls r2 = r'"
    "completed r' = completed r2
        + sum_list (map (\<lambda>f. finished_count (events f)) (fetch_runs env (Suc i) urls))"
    "errs r' = errs r2 @ List.map_filter failure (fetch_runs env (Suc i) urls)"
    "written r' = written r2"
    "r_downloads r' download_id = Some info'"
    "status info' = status info1" "errors info' = errors info1" "zip_path info' = zip_path info1"
    by blast
  have "download_each env download_id total_count i (url # urls) r = r'"
    using h e(1) by (simp add: f_def [symmetric] r2_def)
  with e c k i r2 show ?case
    by (auto simp: f_def [symmetric] split: option.split)
qed

lemma download_videos_completes:
  assumes "downloads download_id = Some info" and "urls \<noteq> []"
    and "mkdir_error env = None" and "zip_error env = None"
  shows "\<exists>r info'. download_videos env urls download_id quality downloads = Inr r
           \<and> r_downloads r download_id = Some info'
           \<and> status info' = ''completed'' \<and> progress info' = 100
           \<and> errors info' = List.map_filter failure (fetch_runs env 0 urls)
           \<and> current info' = ''Completed! ''
                @ str_int (sum_list (map (\<lambda>f. finished_count (events f)) (fetch_runs env 0 urls)))
                @ ''/'' @ str_int (int (length urls)) @ '' downloaded''"
proof -
  define r0 where "r0 = \<lparr>completed = 0, errs = [], r_downloads = downloads, written = None,
               observed = [downloads]\<rparr>"
  from assms(1) have "r_downloads r0 download_id = Some info" by (simp add: r0_def)
  moreover from assms(2) have "int (length urls) \<noteq> 0" by simp
  ultimately obtain r1 info1 where
    e: "download_each env download_id (int (length urls)) 0 urls r0 = r1"
    "completed r1 = completed r0
        + sum_list (map (\<lambda>f. finished_count (events f)) (fetch_runs env 0 urls))"
    "errs r1 = errs r0 @ List.map_filter failure (fetch_runs env 0 urls)"
    "r_downloads r1 download_id = Some info1"
    using download_each_effect [of r0 download_id info "int (length urls)" env 0 urls] by blast
  then show ?thesis
    using assms(3,4)
    by (simp add: download_videos_def Let_def r0_def [symmetric] finish_def) (simp add: r0_def)
qed

lemma still_starting_each:
  assumes "still_starting download_id downloads"
  shows "still_starting download_id
           (r_downloads (download_each env download_id total_count 0 urls
              \<lparr>completed = 0, errs = [], r_downloads = downloads, written = None,
               observed = [downloads]\<rparr>))
       \<and> list_all (still_starting download_id)
           (observed (download_each env download_id total_count 0 urls
              \<lparr>completed = 0, errs = [], r_downloads = downloads, written = None,
               observed = [downloads]\<rparr>))
       \<and> written (download_each env download_id total_count 0 urls
              \<lparr>completed = 0, errs = [], r_downloads = downloads, written = None,
               observed = [downloads]\<rparr>) = None
       \<and> last (observed (download_each env download_id total_count 0 urls
              \<lparr>completed = 0, errs = [], r_downloads = downloads, written = None,
               observed = [downloads]\<rparr>))
          = r_downloads (download_each env download_id total_count 0 urls
              \<lparr>completed = 0, errs = [], r_downloads = downloads, written = None,
               observed = [downloads]\<rparr>)"
proof -
  define P :: "runner \<Rightarrow> bool" where
    "P r \<longleftrightarrow> still_starting download_id (r_downloads r)
       \<and> list_all (still_starting download_id) (observed r) \<and> written r = None
       \<and> observed r \<noteq> [] \<and> last (observed r) = r_downloads r" for r
  define r0 where "r0 = \<lparr>completed = 0, errs = [], r_downloads = downloads, written = None,
               observed = [downloads]\<rparr>"
  have P0: "P r0" using assms by (simp add: P_def r0_def)
  have hook: "P r'" if "P r" "progress_hook download_id total_count d r = Inr r'" for d r r'
    using that
    by (auto simp: P_def progress_hook_def still_starting_def split: if_splits option.splits)
  have bump: "P (r\<lparr>completed := completed r + 1\<rparr>)" if "P r" for r
    using that by (simp add: P_def)
  have caught: "P (r\<lparr>errs := errs r @ [msg]\<rparr>)" if "P r" for r msg
    using that by (simp add: P_def)
  have "P (download_each env download_id total_count 0 urls r0)"
    using P0 hook bump caught by (rule download_each_invariant)
  then show ?thesis by (simp add: P_def r0_def)
qed

lemma progress_le_refl: "progress_le download_id d d"
  by (auto simp: progress_le_def)

text \<open>Up to the last block, the progress of the job never decreases, and it stays at or
  below what the formula gives for the counter.\<close>

lemma progress_le_each:
  assumes tpos: "0 < total_count"
    and init: "\<forall>info. downloads download_id = Some info \<longrightarrow> progress info \<le> 0"
  shows "successively (progress_le download_id)
           (observed (download_each env download_id total_count 0 urls
              \<lparr>completed = 0, errs = [], r_downloads = downloads, written = None,
               observed = [downloads]\<rparr>))
       \<and> (\<forall>info. r_downloads (download_each env download_id total_count 0 urls
              \<lparr>completed = 0, errs = [], r_downloads = downloads, written = None,
               observed = [downloads]\<rparr>) download_id = Some info \<longrightarrow>
              progress info \<le> overall_progress (completed (download_each env download_id
                total_count 0 urls \<lparr>completed = 0, errs = [], r_downloads = downloads,
                written = None, observed = [downloads]\<rparr>)) total_count)
       \<and> 0 \<le> completed (download_each env download_id total_count 0 urls
              \<lparr>completed = 0, errs = [], r_downloads = downloads, written = None,
               observed = [downloads]\<rparr>)"
proof -
  define P :: "runner \<Rightarrow> bool" where
    "P r \<longleftrightarrow> observed r \<noteq> [] \<and> last (observed r) = r_downloads r \<and> 0 \<le> completed r
        \<and> (\<forall>info. r_downloads r download_id = Some info \<longrightarrow>
              progress info \<le> overall_progress (completed r) total_count)
        \<and> successively (progress_le download_id) (observed r)" for r
  define r0 where "r0 = \<lparr>completed = 0, errs = [], r_downloads = downloads, written = None,
               observed = [downloads]\<rparr>"
  have P0: "P r0"
    using init by (simp add: P_def r0_def overall_progress_zero)
  have hook: "P r'" if "P r" "progress_hook download_id total_count d r = Inr r'" for d r r'
  proof -
    from that(1) have ne: "observed r \<noteq> []" and la: "last (observed r) = r_downloads r"
      and c: "0 \<le> completed r"
      and b: "\<forall>info. r_downloads r download_id = Some info \<longrightarrow>
              progress info \<le> overall_progress (completed r) total_count"
      and s: "successively (progress_le download_id) (observed r)"
      by (simp_all add: P_def)
    consider (dl) "ev_status d = ''downloading''"
      | (fin) "ev_status d \<noteq> ''downloading''" "ev_status d = ''finished''"
      | (other) "ev_status d \<noteq> ''downloading''" "ev_status d \<noteq> ''finished''"
      by blast
    then show ?thesis
    proof cases
      case dl
      with that(2) tpos obtain info where
        i: "r_downloads r download_id = Some info"
        and r': "r' = release (r\<lparr>r_downloads := (r_downloads r)(download_id \<mapsto>
                   info\<lparr>progress := overall_progress (completed r) total_count,
                        current := ''Downloading: '' @ filename50 d\<rparr>)\<rparr>)"
        by (auto simp: progress_hook_def split: option.splits)
      from i b have "progress_le download_id (r_downloads r) (r_downloads r')"
        by (simp add: progress_le_def r')
      with ne la s have "successively (progress_le download_id) (observed r')"
        by (simp add: r' successively_append_iff)
      with c show ?thesis
        by (simp add: P_def r')
    next
      case fin
      with that(2) obtain info where
        i: "r_downloads r download_id = Some info"
        and r': "r' = release (r\<lparr>completed := completed r + 1,
              r_downloads := (r_downloads r)(download_id \<mapsto>
                info\<lparr>current := ''Finished: '' @ filename50 d\<rparr>)\<rparr>)"
        by (auto simp: progress_hook_def split: option.splits)
      from i have "progress_le download_id (r_downloads r) (r_downloads r')"
        by (simp add: progress_le_def r')
      with ne la s have "successively (progress_le download_id) (observed r')"
        by (simp add: r' successively_append_iff)
      moreover from i b overall_progress_Suc [OF c tpos]
      have "progress info \<le> overall_progress (completed r + 1) total_count"
        by fastforce
      ultimately show ?thesis
        using c by (simp add: P_def r')
    next
      case other
      with that(2) have r': "r' = release r"
        by (simp add: progress_hook_def)
      with ne la s have "successively (progress_le download_id) (observed r')"
        by (simp add: successively_append_iff progress_le_refl)
      with c b show ?thesis
        by (simp add: P_def r')
    qed
  qed
  have bump: "P (r\<lparr>completed := completed r + 1\<rparr>)" if "P r" for r
  proof -
    from that have c: "0 \<le> completed r"
      and b: "\<forall>info. r_downloads r download_id = Some info \<longrightarrow>
              progress info \<le> overall_progress (completed r) total_count"
      by (simp_all add: P_def)
    from b overall_progress_Suc [OF c tpos]
    have "\<forall>info. r_downloads r download_id = Some info \<longrightarrow>
              progress info \<le> overall_progress (completed r + 1) total_count"
      by fastforce
    with that c show ?thesis by (simp add: P_def)
  qed
  have caught: "P (r\<lparr>errs := errs r @ [msg]\<rparr>)" if "P r" for r msg
    using that by (simp add: P_def)
  have "P (download_each env download_id total_count 0 urls r0)"
    using P0 hook bump caught by (rule download_each_invariant)
  then show ?thesis by (simp add: P_def r0_def)
qed

lemma successively_progress_step:
  assumes "successively (progress_le download_id) tr"
  shows "successively (progress_step download_id bounded) tr"
  using assms
  by (rule successively_mono) (auto simp: progress_le_def progress_step_def)

lemma progress_chain:
  assumes t: "urls \<noteq> []"
    and rec: "downloads download_id = Some info0" and init: "progress info0 \<le> 0"
  shows "successively
           (progress_step download_id (total_finished env urls \<le> int (length urls)))
           (observed (final_state (download_videos env urls download_id quality downloads)))"
proof -
  define total_count where "total_count = int (length urls)"
  from t have tpos: "0 < total_count" by (simp add: total_count_def)
  define r0 where "r0 = \<lparr>completed = 0, errs = [], r_downloads = downloads, written = None,
               observed = [downloads]\<rparr>"
  define r1 where "r1 = download_each env download_id total_count 0 urls r0"
  define w where "w \<longleftrightarrow> total_finished env urls \<le> total_count"
  from rec init have "\<forall>info. downloads download_id = Some info \<longrightarrow> progress info \<le> 0"
    by simp
  with tpos
  have "successively (progress_le download_id)
           (observed (download_each env download_id total_count 0 urls
              \<lparr>completed = 0, errs = [], r_downloads = downloads, written = None,
               observed = [downloads]\<rparr>))
       \<and> (\<forall>info. r_downloads (download_each env download_id total_count 0 urls
              \<lparr>completed = 0, errs = [], r_downloads = downloads, written = None,
               observed = [downloads]\<rparr>) download_id = Some info \<longrightarrow>
              progress info \<le> overall_progress (completed (download_each env download_id
                total_count 0 urls \<lparr>completed = 0, errs = [], r_downloads = downloads,
                written = None, observed = [downloads]\<rparr>)) total_count)
       \<and> 0 \<le> completed (download_each env download_id total_count 0 urls
              \<lparr>completed = 0, errs = [], r_downloads = downloads, written = None,
               observed = [downloads]\<rparr>)"
    by (rule progress_le_each)
  then have s: "successively (progress_le download_id) (observed r1)"
    and b: "\<forall>info. r_downloads r1 download_id = Some info \<longrightarrow>
              progress info \<le> overall_progress (completed r1) total_count"
    and c: "0 \<le> completed r1"
    by (simp_all add: r1_def r0_def)
  from rec have st: "r_downloads r0 download_id = Some info0" by (simp add: r0_def)
  from tpos have tn: "total_count \<noteq> 0" by simp
  from download_each_effect [OF st tn, of env 0 urls] obtain info1 where
    f: "completed r1 = total_finished env urls"
    and i1: "r_downloads r1 download_id = Some info1"
    by (auto simp: r1_def r0_def total_finished_def)
  from rec have ss: "r_downloads r0 = downloads" by (simp add: r0_def)
  have la: "observed r1 \<noteq> []" "last (observed r1) = r_downloads r1"
  proof -
    define P :: "runner \<Rightarrow> bool" where
      "P r \<longleftrightarrow> observed r \<noteq> [] \<and> last (observed r) = r_downloads r" for r
    have "P r0" by (simp add: P_def r0_def)
    moreover have "P r'" if "P r" "progress_hook download_id total_count d r = Inr r'" for d r r'
      using that by (auto simp: P_def progress_hook_def split: if_splits option.splits)
    moreover have "P (r\<lparr>completed := completed r + 1\<rparr>)" if "P r" for r
      using that by (simp add: P_def)
    moreover have "P (r\<lparr>errs := errs r @ [msg]\<rparr>)" if "P r" for r msg
      using that by (simp add: P_def)
    ultimately have "P (download_each env download_id total_count 0 urls r0)"
      by (rule download_each_invariant)
    then show "observed r1 \<noteq> []" "last (observed r1) = r_downloads r1"
      by (simp_all add: P_def r1_def)
  qed
  show ?thesis
  proof (cases "mkdir_error env")
    case (Some msg)
    then show ?thesis by (simp add: download_videos_def)
  next
    case None
    show ?thesis
    proof (cases "zip_error env")
      case (Some msg)
      with None successively_progress_step [OF s] show ?thesis
        by (simp add: download_videos_def Let_def r0_def [symmetric]
              total_count_def [symmetric] r1_def [symmetric])
    next
      case zok: None
      have "progress info1 \<le> 100" if "total_finished env urls \<le> total_count"
      proof -
        from that f c tpos have "overall_progress (completed r1) total_count \<le> 90"
          by (simp add: overall_progress_le_90)
        with b i1 show ?thesis by fastforce
      qed
      then have last_step: "progress_step download_id (total_finished env urls \<le> total_count)
          (r_downloads r1) ((r_downloads r1)(download_id \<mapsto> info1\<lparr>status := ''completed'',
             progress := 100, zip_path := Some z, current := m, errors := es\<rparr>))" for z m es
        using i1 by (simp add: progress_step_def)
      from i1 la successively_progress_step [OF s] last_step
      have "successively (progress_step download_id (total_finished env urls \<le> total_count))
          (observed (final_state (finish download_id total_count z (r1\<lparr>written := wr\<rparr>))))"
        for z wr
        by (simp add: finish_def successively_append_iff)
      with None zok show ?thesis
        by (simp add: download_videos_def Let_def r0_def [symmetric]
              total_count_def [symmetric] r1_def [symmetric])
    qed
  qed
qed


text \<open>
  With an identifier that is not in the registry, the hook raises at the first event; the
  loop catches the exception and records it, the archive is written, and the thread ends
  in the last block with a \<^verbatim>\<open>KeyError\<close> that nothing catches.
\<close>

lemma hook_exception_is_caught:
  "errs (final_state (download_videos example_env
      [''https://youtu.be/a'', ''https://www.youtube.com/watch?v=b''] ''123e4567'' ''720''
      Map.empty))
     = [''ERROR: Video unavailable'', CHR 0x27 # ''123e4567'' @ [CHR 0x27]]
   \<and> (\<exists>r. download_videos example_env
      [''https://youtu.be/a'', ''https://www.youtube.com/watch?v=b''] ''123e4567'' ''720''
      Map.empty = Inl (KeyError ''123e4567'', r))"
  by (simp add: download_videos_def example_env_def example_events_def finish_def
        progress_hook_def str_exn_def)

section \<open>The claims\<close>

text \<open>
  C1, as amended. A job created with exactly two URLs, of which one fetch raises and the
  other returns, and whose output directory and archive can be written, reaches the status
  \<^verbatim>\<open>completed\<close> with exactly one recorded error and the message
  \<^verbatim>\<open>Completed! k/2 downloaded\<close>, where \<open>k\<close> is the number of events tagged
  \<^verbatim>\<open>finished\<close> that the two fetches have delivered (so \<open>k\<close> is 1 when the fetch that
  returns delivers one such event and the fetch that raises none).
\<close>

theorem two_urls_one_failure:
  assumes "start_download data uuid4 now downloads = (Success download_id, downloads', Some args)"
    and "t_urls args = [u0, u1]"
    and "mkdir_error env = None" and "zip_error env = None"
    and "(failure (ydl_download env 0 u0) = None) \<noteq> (failure (ydl_download env 1 u1) = None)"
  shows "\<exists>r info. download_videos env (t_urls args) (t_download_id args) (t_quality args) downloads'
                    = Inr r
           \<and> r_downloads r download_id = Some info
           \<and> status info = ''completed''
           \<and> length (errors info) = 1
           \<and> current info = ''Completed! ''
                @ str_int (finished_count (events (ydl_download env 0 u0))
                           + finished_count (events (ydl_download env 1 u1)))
                @ ''/2 downloaded''"
proof -
  from start_download_success [OF assms(1)]
  have args: "t_download_id args = download_id"
    and fresh: "downloads' download_id = Some \<lparr>status = ''starting'', progress = 0,
           current = ''Initializing'', errors = [], timestamp = now, zip_path = None\<rparr>"
    by auto
  have ne: "[u0, u1] \<noteq> []" by simp
  from download_videos_completes [of downloads' download_id _ "[u0, u1]" env "t_quality args",
      OF fresh ne assms(3,4)]
  obtain r info where
    r: "download_videos env [u0, u1] download_id (t_quality args) downloads' = Inr r"
    "r_downloads r download_id = Some info" "status info = ''completed''"
    "errors info = List.map_filter failure (fetch_runs env 0 [u0, u1])"
    "current info = ''Completed! ''
        @ str_int (sum_list (map (\<lambda>f. finished_count (events f)) (fetch_runs env 0 [u0, u1])))
        @ ''/'' @ str_int (int (length [u0, u1])) @ '' downloaded''"
    by blast
  from assms(5) r(4) have "length (errors info) = 1"
    by (auto simp: List.map_filter_simps split: option.splits)
  with r show ?thesis
    by (simp add: assms(2) args str_int_values)
qed

theorem two_urls_one_failure_witness:
  "map_option (\<lambda>j. (status j, length (errors j), current j))
     (r_downloads (final_state (download_videos example_env_single
        [''https://youtu.be/a'', ''https://www.youtube.com/watch?v=b''] ''123e4567'' ''720''
        [''123e4567'' \<mapsto> example_job])) ''123e4567'')
   = Some (''completed'', 1, ''Completed! 1/2 downloaded'')"
proof -
  have f: "(failure (ydl_download example_env_single 0 ''https://youtu.be/a'') = None)
      \<noteq> (failure (ydl_download example_env_single 1 ''https://www.youtube.com/watch?v=b'') = None)"
    by (simp add: example_env_single_def)
  have m: "mkdir_error example_env_single = None" "zip_error example_env_single = None"
    by (simp_all add: example_env_single_def)
  from two_urls_one_failure [OF example_start _ m f] show ?thesis
    by (auto simp: example_env_single_def example_events_def str_int_values)
qed

text \<open>
  C1 as stated fails: the first fetch raises and the second returns after writing a video
  and its subtitles, which is two events tagged \<^verbatim>\<open>finished\<close>; the message counts 2 of 2.
\<close>

theorem two_urls_one_failure_counterexample:
  "failure (ydl_download example_env 0 ''https://youtu.be/a'') = Some ''ERROR: Video unavailable''
   \<and> failure (ydl_download example_env 1 ''https://www.youtube.com/watch?v=b'') = None
   \<and> map_option (\<lambda>j. (status j, errors j, current j))
       (r_downloads (final_state (download_videos example_env
          [''https://youtu.be/a'', ''https://www.youtube.com/watch?v=b''] ''123e4567'' ''720''
          [''123e4567'' \<mapsto> example_job])) ''123e4567'')
     = Some (''completed'', [''ERROR: Video unavailable''], ''Completed! 2/2 downloaded'')"
  by (simp add: download_videos_def example_env_def example_events_def example_job_def
        finish_def progress_hook_def str_int_values)

text \<open>
  C2, as amended. When the output directory cannot be created or the archive cannot be
  written, the thread of the job ends with that error uncaught: in every state that the
  run has made visible the job keeps the status \<^verbatim>\<open>starting\<close> (the code has no status
  \<^verbatim>\<open>failed\<close>), its list of errors stays empty, and no archive location is recorded.
\<close>

theorem io_error_leaves_job_starting:
  assumes "start_download data uuid4 now downloads = (Success download_id, downloads', Some args)"
    and "mkdir_error env \<noteq> None \<or> zip_error env \<noteq> None"
  shows "\<exists>msg r. download_videos env (t_urls args) (t_download_id args) (t_quality args) downloads'
                    = Inl (OSError msg, r)
           \<and> still_starting download_id (r_downloads r)
           \<and> list_all (still_starting download_id) (observed r)
           \<and> written r = None"
proof -
  from start_download_success [OF assms(1)]
  have args: "t_download_id args = download_id" "t_urls args \<noteq> []"
    and fresh: "downloads' download_id = Some \<lparr>status = ''starting'', progress = 0,
           current = ''Initializing'', errors = [], timestamp = now, zip_path = None\<rparr>"
    by auto
  from fresh have st: "still_starting download_id downloads'"
    by (simp add: still_starting_def)
  define r0 where "r0 = \<lparr>completed = 0, errs = [], r_downloads = downloads', written = None,
               observed = [downloads']\<rparr>"
  define r1 where
    "r1 = download_each env download_id (int (length (t_urls args))) 0 (t_urls args) r0"
  from still_starting_each [OF st, of env "int (length (t_urls args))" "t_urls args"]
  have r1: "still_starting download_id (r_downloads r1)
      \<and> list_all (still_starting download_id) (observed r1) \<and> written r1 = None"
    by (simp add: r1_def r0_def)
  show ?thesis
  proof (cases "mkdir_error env")
    case (Some msg)
    with st show ?thesis
      by (simp add: download_videos_def args(1))
  next
    case None
    with assms(2) obtain msg where z: "zip_error env = Some msg" by auto
    with None r1 show ?thesis
      by (simp add: download_videos_def Let_def args(1) r0_def [symmetric] r1_def [symmetric])
  qed
qed

theorem io_error_leaves_job_starting_witness:
  "(\<exists>msg r. download_videos (example_env\<lparr>zip_error := Some ''[Errno 28] No space left on device''\<rparr>)
       [''https://youtu.be/a'', ''https://www.youtube.com/watch?v=b''] ''123e4567'' ''720''
       [''123e4567'' \<mapsto> example_job] = Inl (OSError msg, r)
     \<and> still_starting ''123e4567'' (r_downloads r)
     \<and> list_all (still_starting ''123e4567'') (observed r)
     \<and> written r = None)"
proof -
  have z: "mkdir_error (example_env\<lparr>zip_error := Some ''[Errno 28] No space left on device''\<rparr>) \<noteq> None
    \<or> zip_error (example_env\<lparr>zip_error := Some ''[Errno 28] No space left on device''\<rparr>) \<noteq> None"
    by simp
  from io_error_leaves_job_starting [OF example_start z] show ?thesis
    by simp
qed

text \<open>
  C2 as stated fails: when \<^verbatim>\<open>mkdir\<close> raises, the thread ends there, and the job record
  keeps the status \<^verbatim>\<open>starting\<close> and an empty list of errors.
\<close>

theorem io_error_not_failed_counterexample:
  "download_videos (example_env\<lparr>mkdir_error := Some ''[Errno 13] Permission denied''\<rparr>)
       [''https://youtu.be/a'', ''https://www.youtube.com/watch?v=b''] ''123e4567'' ''720''
       [''123e4567'' \<mapsto> example_job]
     = Inl (OSError ''[Errno 13] Permission denied'',
            \<lparr>completed = 0, errs = [], r_downloads = [''123e4567'' \<mapsto> example_job],
             written = None, observed = [[''123e4567'' \<mapsto> example_job]]\<rparr>)
   \<and> status example_job = ''starting'' \<and> status example_job \<noteq> ''failed''
   \<and> errors example_job = []"
  by (simp add: download_videos_def example_env_def example_job_def)

text \<open>
  C3, as amended. While the job record exists, an event tagged \<^verbatim>\<open>downloading\<close> sets the
  progress to \<^verbatim>\<open>int((completed / total) * 90)\<close> as double arithmetic computes it (62, not
  63, for 7 of 10), overwrites the current message and leaves the counter as it is; an event
  tagged \<^verbatim>\<open>finished\<close> adds exactly one to the counter, overwrites the current message and
  leaves the progress as it is. The progress that a \<^verbatim>\<open>downloading\<close> event sets lies
  between 0 and 90 as long as the counter of finished events does not exceed the number of
  URLs.
\<close>

theorem progress_hook_effects:
  assumes "r_downloads r download_id = Some info" and "total_count \<noteq> 0"
  shows "(ev_status d = ''downloading'' \<longrightarrow>
           (\<exists>r' info'. progress_hook download_id total_count d r = Inr r'
              \<and> r_downloads r' download_id = Some info'
              \<and> progress info' = overall_progress (completed r) total_count
              \<and> current info' = ''Downloading: '' @ filename50 d
              \<and> completed r' = completed r))
       \<and> (ev_status d = ''finished'' \<longrightarrow>
           (\<exists>r' info'. progress_hook download_id total_count d r = Inr r'
              \<and> r_downloads r' download_id = Some info'
              \<and> completed r' = completed r + 1
              \<and> progress info' = progress info
              \<and> current info' = ''Finished: '' @ filename50 d))
       \<and> (0 \<le> completed r \<and> completed r \<le> total_count \<longrightarrow>
            0 \<le> overall_progress (completed r) total_count
            \<and> overall_progress (completed r) total_count \<le> 90)"
proof (intro conjI impI)
  assume "ev_status d = ''downloading''"
  with assms show "\<exists>r' info'. progress_hook download_id total_count d r = Inr r'
              \<and> r_downloads r' download_id = Some info'
              \<and> progress info' = overall_progress (completed r) total_count
              \<and> current info' = ''Downloading: '' @ filename50 d
              \<and> completed r' = completed r"
    by (simp add: progress_hook_def)
next
  assume "ev_status d = ''finished''"
  with assms show "\<exists>r' info'. progress_hook download_id total_count d r = Inr r'
              \<and> r_downloads r' download_id = Some info'
              \<and> completed r' = completed r + 1
              \<and> progress info' = progress info
              \<and> current info' = ''Finished: '' @ filename50 d"
    by (simp add: progress_hook_def)
next
  assume b: "0 \<le> completed r \<and> completed r \<le> total_count"
  with assms(2) have t: "0 < total_count" by linarith
  with b show "0 \<le> overall_progress (completed r) total_count"
    by (simp add: overall_progress_nonneg)
  from b t show "overall_progress (completed r) total_count \<le> 90"
    by (simp add: overall_progress_le_90)
qed

theorem progress_hook_effects_witness:
  "map_option progress (r_downloads (final_state (progress_hook ''123e4567'' 10
       \<lparr>ev_status = ''downloading'', ev_filename = Some ''08 - h.mp4''\<rparr>
       \<lparr>completed = 7, errs = [], r_downloads = [''123e4567'' \<mapsto> example_job],
        written = None, observed = [[''123e4567'' \<mapsto> example_job]]\<rparr>)) ''123e4567'')
     = Some 62
   \<and> completed (final_state (progress_hook ''123e4567'' 10
       \<lparr>ev_status = ''finished'', ev_filename = Some ''08 - h.mp4''\<rparr>
       \<lparr>completed = 7, errs = [], r_downloads = [''123e4567'' \<mapsto> example_job],
        written = None, observed = [[''123e4567'' \<mapsto> example_job]]\<rparr>)) = 8
   \<and> overall_progress 7 10 \<le> 90
   \<and> (7 * 90) div 10 = (63 :: int)"
  using progress_hook_effects
    [of "\<lparr>completed = 7, errs = [], r_downloads = [''123e4567'' \<mapsto> example_job],
        written = None, observed = [[''123e4567'' \<mapsto> example_job]]\<rparr>"
        "''123e4567''" example_job 10
        "\<lparr>ev_status = ''downloading'', ev_filename = Some ''08 - h.mp4''\<rparr>"]
  by (simp add: progress_hook_def overall_progress_values)

text \<open>
  C3 as stated fails in its last part: a URL that names a playlist delivers more
  \<^verbatim>\<open>finished\<close> events than there are URLs, and the next \<^verbatim>\<open>downloading\<close> event sets
  the progress to 180 while the status is still \<^verbatim>\<open>starting\<close>.
\<close>

theorem progress_above_90_counterexample:
  "map (\<lambda>d. map_option (\<lambda>j. (status j, progress j)) (d ''123e4567''))
     (observed (final_state (download_videos example_playlist_env
        [''https://www.youtube.com/playlist?list=PL1''] ''123e4567'' ''720''
        [''123e4567'' \<mapsto> example_job])))
   = [Some (''starting'', 0), Some (''starting'', 0), Some (''starting'', 0),
      Some (''starting'', 90), Some (''starting'', 90), Some (''starting'', 180),
      Some (''completed'', 100)]"
  by (simp add: download_videos_def example_playlist_env_def example_events_def example_job_def
        finish_def progress_hook_def overall_progress_values)

text \<open>
  C4, as amended. From the creation of a job on, through its run: between two consecutive
  observable states of the registry, the progress of the job does not decrease when the
  later of the two shows a status that is not terminal (neither \<^verbatim>\<open>completed\<close> nor
  \<^verbatim>\<open>failed\<close>); and the last update, which sets the progress to 100 together with the
  status \<^verbatim>\<open>completed\<close>, does not lower it either when the fetches of the run have
  delivered no more events tagged \<^verbatim>\<open>finished\<close> than there are URLs.
\<close>

theorem progress_never_decreases:
  assumes "start_download data uuid4 now downloads = (Success download_id, downloads', Some args)"
    and "tr = observed (final_state
           (download_videos env (t_urls args) (t_download_id args) (t_quality args) downloads'))"
    and "Suc i < length tr"
    and "(tr ! i) download_id = Some a" and "(tr ! Suc i) download_id = Some b"
    and "(status b \<noteq> ''completed'' \<and> status b \<noteq> ''failed'')
         \<or> total_finished env (t_urls args) \<le> int (length (t_urls args))"
  shows "progress a \<le> progress b"
proof -
  from start_download_success [OF assms(1)]
  have args: "t_download_id args = download_id" "t_urls args \<noteq> []"
    and fresh: "downloads' download_id = Some \<lparr>status = ''starting'', progress = 0,
           current = ''Initializing'', errors = [], timestamp = now, zip_path = None\<rparr>"
    by auto
  have "progress \<lparr>status = ''starting'', progress = 0,
           current = ''Initializing'', errors = [], timestamp = now, zip_path = None\<rparr> \<le> 0"
    by simp
  with args(2) fresh
  have "successively
          (progress_step download_id
             (total_finished env (t_urls args) \<le> int (length (t_urls args))))
          (observed (final_state
             (download_videos env (t_urls args) download_id (t_quality args) downloads')))"
    by (rule progress_chain)
  then have "successively
          (progress_step download_id
             (total_finished env (t_urls args) \<le> int (length (t_urls args)))) tr"
    by (simp add: assms(2) args(1))
  from successively_nth [OF this assms(3)] assms(4-6) show ?thesis
    by (auto simp: progress_step_def)
qed

theorem progress_never_decreases_witness:
  "(observed (final_state (download_videos example_env
        [''https://youtu.be/a'', ''https://www.youtube.com/watch?v=b''] ''123e4567'' ''720''
        [''123e4567'' \<mapsto> example_job])) ! 2) ''123e4567''
     = Some (example_job\<lparr>current := ''Finished: 01 - b.mp4''\<rparr>)
   \<and> (observed (final_state (download_videos example_env
        [''https://youtu.be/a'', ''https://www.youtube.com/watch?v=b''] ''123e4567'' ''720''
        [''123e4567'' \<mapsto> example_job])) ! 3) ''123e4567''
     = Some (example_job\<lparr>progress := 45, current := ''Downloading: 01 - b.en.vtt''\<rparr>)
   \<and> progress (example_job\<lparr>current := ''Finished: 01 - b.mp4''\<rparr>)
       \<le> progress (example_job\<lparr>progress := 45, current := ''Downloading: 01 - b.en.vtt''\<rparr>)
   \<and> total_finished example_env [''https://youtu.be/a'', ''https://www.youtube.com/watch?v=b'']
       = 2
   \<and> map_option progress ((observed (final_state (download_videos example_env
        [''https://youtu.be/a'', ''https://www.youtube.com/watch?v=b''] ''123e4567'' ''720''
        [''123e4567'' \<mapsto> example_job])) ! 4) ''123e4567'') = Some 45
   \<and> map_option progress ((observed (final_state (download_videos example_env
        [''https://youtu.be/a'', ''https://www.youtube.com/watch?v=b''] ''123e4567'' ''720''
        [''123e4567'' \<mapsto> example_job])) ! 5) ''123e4567'') = Some 100"
proof -
  define tr where "tr = observed (final_state (download_videos example_env
        [''https://youtu.be/a'', ''https://www.youtube.com/watch?v=b''] ''123e4567'' ''720''
        [''123e4567'' \<mapsto> example_job]))"
  define j5 where "j5 = example_job\<lparr>status := ''completed'', progress := 100,
         zip_path := Some ''/home/u/Downloads/youtube_123e4567.zip'',
         current := ''Completed! 2/2 downloaded'', errors := [''ERROR: Video unavailable'']\<rparr>"
  have tr: "tr = [[''123e4567'' \<mapsto> example_job],
      [''123e4567'' \<mapsto> example_job\<lparr>current := ''Downloading: 01 - b.mp4''\<rparr>],
      [''123e4567'' \<mapsto> example_job\<lparr>current := ''Finished: 01 - b.mp4''\<rparr>],
      [''123e4567'' \<mapsto> example_job\<lparr>progress := 45, current := ''Downloading: 01 - b.en.vtt''\<rparr>],
      [''123e4567'' \<mapsto> example_job\<lparr>progress := 45, current := ''Finished: 01 - b.en.vtt''\<rparr>],
      [''123e4567'' \<mapsto> j5]]"
    unfolding tr_def j5_def
    by (simp add: download_videos_def example_env_def example_events_def example_job_def
        finish_def progress_hook_def str_int_values overall_progress_values filename50_def
        zip_path_of_def joinpath_def)
  have a: "(tr ! 2) ''123e4567'' = Some (example_job\<lparr>current := ''Finished: 01 - b.mp4''\<rparr>)"
    and b: "(tr ! Suc 2) ''123e4567''
          = Some (example_job\<lparr>progress := 45, current := ''Downloading: 01 - b.en.vtt''\<rparr>)"
    and l: "Suc 2 < length tr"
    and a': "(tr ! 4) ''123e4567''
          = Some (example_job\<lparr>progress := 45, current := ''Finished: 01 - b.en.vtt''\<rparr>)"
    and b': "(tr ! Suc 4) ''123e4567'' = Some j5"
    and l': "Suc 4 < length tr"
    by (simp_all add: tr)
  have s: "(status (example_job\<lparr>progress := 45, current := ''Downloading: 01 - b.en.vtt''\<rparr>)
             \<noteq> ''completed''
     \<and> status (example_job\<lparr>progress := 45, current := ''Downloading: 01 - b.en.vtt''\<rparr>)
             \<noteq> ''failed'')
     \<or> total_finished example_env [''https://youtu.be/a'', ''https://www.youtube.com/watch?v=b'']
           \<le> int (length [''https://youtu.be/a'', ''https://www.youtube.com/watch?v=b''])"
    by (simp add: example_job_def)
  have f: "total_finished example_env
             [''https://youtu.be/a'', ''https://www.youtube.com/watch?v=b''] = 2"
    by (simp add: total_finished_def example_env_def example_events_def)
  then have s': "(status j5 \<noteq> ''completed'' \<and> status j5 \<noteq> ''failed'')
     \<or> total_finished example_env [''https://youtu.be/a'', ''https://www.youtube.com/watch?v=b'']
           \<le> int (length [''https://youtu.be/a'', ''https://www.youtube.com/watch?v=b''])"
    by simp
  from progress_never_decreases [OF example_start _ l a b] s
    progress_never_decreases [OF example_start _ l' a' b'] s' a b a' b' f
  show ?thesis
    by (simp add: tr_def numeral_3_eq_3 j5_def example_job_def)
qed

text \<open>
  C4 as stated fails at the last update: a job created for one playlist URL has reached the
  progress 180 with the status \<^verbatim>\<open>starting\<close>, and the update that completes it sets
  100.
\<close>

theorem progress_drops_at_completion_counterexample:
  "start_download \<lparr>req_urls = Some [''https://www.youtube.com/playlist?list=PL1''],
       req_quality = Some ''720''\<rparr> ''123e4567-e89b-42d3-a456-426614174000'' 0 Map.empty
     = (Success ''123e4567'', [''123e4567'' \<mapsto> example_job],
        Some \<lparr>t_urls = [''https://www.youtube.com/playlist?list=PL1''],
              t_download_id = ''123e4567'', t_quality = ''720''\<rparr>)
   \<and> map_option (\<lambda>j. (status j, progress j))
        ((observed (final_state (download_videos example_playlist_env
            [''https://www.youtube.com/playlist?list=PL1''] ''123e4567'' ''720''
            [''123e4567'' \<mapsto> example_job])) ! 5) ''123e4567'')
       = Some (''starting'', 180)
   \<and> map_option (\<lambda>j. (status j, progress j))
        ((observed (final_state (download_videos example_playlist_env
            [''https://www.youtube.com/playlist?list=PL1''] ''123e4567'' ''720''
            [''123e4567'' \<mapsto> example_job])) ! 6) ''123e4567'')
       = Some (''completed'', 100)
   \<and> \<not> (180 :: int) \<le> 100"
  by (simp add: start_download_def is_valid_youtube_url_def sublist_eval Let_def
        download_videos_def example_playlist_env_def example_events_def example_job_def
        finish_def progress_hook_def overall_progress_values)



text \<open>
  C6. The archive that a run writes holds exactly the regular files that the listing of the
  output directory names, each under the name it has in the listing (the entries of a
  subdirectory are not visited, so nothing is stored under a path with a directory in it),
  with no name twice when the listing has none twice. A run that returns has written this
  archive at the path \<^verbatim>\<open>zip_path_of\<close>, a function of the home directory and of the
  identifier alone that differs for different identifiers, and has stored that path in the
  job record.
\<close>

theorem archive_holds_regular_files:
  "set (zip_entries listing) = {(f, bytes). (f, Regular_file bytes) \<in> set listing}
   \<and> (distinct (map fst listing) \<longrightarrow> distinct (map fst (zip_entries listing)))
   \<and> (download_videos env urls download_id quality downloads = Inr r \<longrightarrow>
        written r = Some (zip_path_of (home env) download_id, zip_entries (listdir env))
        \<and> (\<exists>info. r_downloads r download_id = Some info
              \<and> zip_path info = Some (zip_path_of (home env) download_id)))
   \<and> (zip_path_of h i = zip_path_of h j \<longrightarrow> i = j)"
  using zip_entries_set zip_entries_distinct download_videos_returns zip_path_of_inj
  by blast

theorem archive_holds_regular_files_witness:
  "set (zip_entries (listdir example_env))
     = {(''01 - b.mp4'', ''video''), (''01 - b.en.vtt'', ''subs'')}
   \<and> written (final_state (download_videos example_env
          [''https://youtu.be/a'', ''https://www.youtube.com/watch?v=b''] ''123e4567'' ''720''
          [''123e4567'' \<mapsto> example_job]))
     = Some (''/home/u/Downloads/youtube_123e4567.zip'',
             [(''01 - b.mp4'', ''video''), (''01 - b.en.vtt'', ''subs'')])"
proof -
  have run: "\<exists>r. download_videos example_env
          [''https://youtu.be/a'', ''https://www.youtube.com/watch?v=b''] ''123e4567'' ''720''
          [''123e4567'' \<mapsto> example_job] = Inr r"
    by (simp add: download_videos_def example_env_def example_job_def example_events_def
          finish_def progress_hook_def release_def)
  then obtain r where r: "download_videos example_env
          [''https://youtu.be/a'', ''https://www.youtube.com/watch?v=b''] ''123e4567'' ''720''
          [''123e4567'' \<mapsto> example_job] = Inr r" ..
  have "distinct (map fst (listdir example_env))"
    by (simp add: example_env_def)
  with r archive_holds_regular_files [of "listdir example_env" example_env
      "[''https://youtu.be/a'', ''https://www.youtube.com/watch?v=b'']" "''123e4567''" "''720''"
      "[''123e4567'' \<mapsto> example_job]" r "''/home/u''" "''a''" "''a''"]
  have "written r = Some (zip_path_of (home example_env) ''123e4567'',
                          zip_entries (listdir example_env))"
    by blast
  with r show ?thesis
    by (auto simp: example_env_def zip_path_of_def joinpath_def)
qed



text \<open>
  C8. When the URL list of a creation request is empty (or the key \<^verbatim>\<open>urls\<close> is
  absent, which the endpoint reads as the empty list), or no URL in it contains
  \<^verbatim>\<open>youtube.com\<close> or \<^verbatim>\<open>youtu.be\<close>, the creation endpoint answers with the failure
  \<^verbatim>\<open>No valid URLs\<close>, leaves the registry as it was and starts no thread.
\<close>

theorem start_download_rejects_invalid:
  assumes "req_urls data = Some urls \<or> (req_urls data = None \<and> urls = [])"
    and "\<forall>u \<in> set urls. \<not> is_valid_youtube_url u"
  shows "start_download data uuid4 now downloads = (Failure ''No valid URLs'', downloads, None)"
proof -
  from assms(2) have "filter is_valid_youtube_url urls = []"
    by (simp add: filter_empty_conv)
  with assms(1) show ?thesis
    by (auto simp: start_download_def)
qed

theorem start_download_rejects_invalid_witness:
  "start_download \<lparr>req_urls = Some [''https://example.com/watch?v=1'', ''youtube''],
      req_quality = Some ''720''\<rparr> ''123e4567-e89b-42d3-a456-426614174000'' 0 Map.empty
     = (Failure ''No valid URLs'', Map.empty, None)
   \<and> start_download \<lparr>req_urls = Some [], req_quality = None\<rparr>
       ''123e4567-e89b-42d3-a456-426614174000'' 0 Map.empty
     = (Failure ''No valid URLs'', Map.empty, None)"
proof -
  have a: "\<forall>u \<in> set [''https://example.com/watch?v=1'', ''youtube'']. \<not> is_valid_youtube_url u"
    by (simp add: is_valid_youtube_url_def sublist_eval)
  show ?thesis
    using start_download_rejects_invalid
      [of "\<lparr>req_urls = Some [''https://example.com/watch?v=1'', ''youtube''],
             req_quality = Some ''720''\<rparr>"
          "[''https://example.com/watch?v=1'', ''youtube'']", OF _ a]
      start_download_rejects_invalid
      [of "\<lparr>req_urls = Some [], req_quality = None\<rparr>" "[]"]
    by simp
qed

text \<open>
  C9, as amended. The identifier of a created job is the first eight characters of the text
  of the generated UUID. Two successful creations return different identifiers exactly when
  these prefixes differ; the endpoint does not look the identifier up before using it, and
  a creation stores a fresh record under its identifier whatever was stored there.
\<close>

theorem job_identifiers_distinct_iff_prefixes_differ:
  assumes "start_download data1 u1 now1 downloads1 = (Success id1, downloads1', started1)"
    and "start_download data2 u2 now2 downloads2 = (Success id2, downloads2', started2)"
  shows "id1 = take 8 u1 \<and> id2 = take 8 u2 \<and> (id1 \<noteq> id2 \<longleftrightarrow> take 8 u1 \<noteq> take 8 u2)
     \<and> downloads2' = downloads2(id2 \<mapsto> \<lparr>status = ''starting'', progress = 0,
          current = ''Initializing'', errors = [], timestamp = now2, zip_path = None\<rparr>)"
  using assms by (auto simp: start_download_def Let_def split: if_splits)

theorem job_identifiers_distinct_iff_prefixes_differ_witness:
  "take 8 ''123e4567-e89b-42d3-a456-426614174000'' = ''123e4567''
   \<and> take 8 ''9f8e7d6c-0c1d-4f6a-9b2e-5a8d3c7e1f90'' = ''9f8e7d6c''
   \<and> fst (start_download example_request ''9f8e7d6c-0c1d-4f6a-9b2e-5a8d3c7e1f90'' 5
          [''123e4567'' \<mapsto> example_job]) = Success ''9f8e7d6c''"
proof -
  obtain d s where
    two: "start_download example_request ''9f8e7d6c-0c1d-4f6a-9b2e-5a8d3c7e1f90'' 5
            [''123e4567'' \<mapsto> example_job] = (Success ''9f8e7d6c'', d, s)"
    by (simp add: start_download_def example_request_def
          is_valid_youtube_url_def sublist_eval Let_def)
  from job_identifiers_distinct_iff_prefixes_differ [OF example_start two] two
  show ?thesis by simp
qed

text \<open>
  C9 as stated fails: two creations whose UUIDs differ but begin with the same eight
  characters return the same identifier, and the second replaces the record of the first
  (whose progress had reached 45) by a fresh one.
\<close>

theorem job_identifier_reused_counterexample:
  "fst (start_download example_request ''123e4567-e89b-42d3-a456-426614174000'' 0 Map.empty)
     = Success ''123e4567''
   \<and> fst (start_download example_request ''123e4567-0c1d-4f6a-9b2e-5a8d3c7e1f90'' 5
          [''123e4567'' \<mapsto> example_job\<lparr>progress := 45\<rparr>])
     = Success ''123e4567''
   \<and> fst (snd (start_download example_request ''123e4567-0c1d-4f6a-9b2e-5a8d3c7e1f90'' 5
          [''123e4567'' \<mapsto> example_job\<lparr>progress := 45\<rparr>])) ''123e4567''
     = Some (example_job\<lparr>timestamp := 5\<rparr>)"
  by (simp add: start_download_def example_request_def example_job_def
        is_valid_youtube_url_def sublist_eval Let_def)

text \<open>
  C10. In every state of the registry that can be observed, a job record whose status is not
  \<^verbatim>\<open>completed\<close> has an empty list of errors: a record is created with the empty list, the
  hook never writes the key \<^verbatim>\<open>errors\<close>, and the errors collected in the thread's local
  list are stored only by the last block, which also sets the status to \<^verbatim>\<open>completed\<close>.
  Stated as an invariant, as for C5.
\<close>

theorem errors_empty_until_completed:
  assumes "errors_only_when_completed downloads"
  shows "errors_only_when_completed (fst (snd (start_download data uuid4 now downloads)))
       \<and> list_all errors_only_when_completed
           (observed (final_state (download_videos env urls download_id quality downloads)))"
proof
  from assms show "errors_only_when_completed (fst (snd (start_download data uuid4 now downloads)))"
    by (rule start_download_keeps_errors_only_when_completed)
  from assms show "list_all errors_only_when_completed
           (observed (final_state (download_videos env urls download_id quality downloads)))"
    by (rule observed_invariant) (auto simp: errors_only_when_completed_def)
qed

theorem errors_empty_until_completed_witness:
  "errors_only_when_completed Map.empty
   \<and> errors_only_when_completed [''123e4567'' \<mapsto> example_job]
   \<and> list_all errors_only_when_completed
       (observed (final_state (download_videos example_env
          [''https://youtu.be/a'', ''https://www.youtube.com/watch?v=b''] ''123e4567'' ''720''
          [''123e4567'' \<mapsto> example_job])))"
proof -
  have e: "errors_only_when_completed Map.empty"
    by (simp add: errors_only_when_completed_def)
  from errors_empty_until_completed [OF e, of example_request
      "''123e4567-e89b-42d3-a456-426614174000''" 0]
  have j: "errors_only_when_completed [''123e4567'' \<mapsto> example_job]"
    by (simp add: example_start)
  from errors_empty_until_completed [OF j] e j show ?thesis
    by blast
qed

end
